theory Spec2Isabelle
  imports Complex_Main
begin

section \<open>Numbers\<close>

text \<open>
  A JavaScript \<^verbatim>\<open>number\<close> is an IEEE-754 double; a \<^verbatim>\<open>Float32Array\<close> converts every
  value stored into it to single precision. Numbers are modelled as reals (all values of
  the program are finite: no division by zero, no overflow), and the rounding that the
  language applies is written out: \<open>rnd\<close> after every arithmetic operation on doubles,
  \<open>fround\<close> at every store into the \<^verbatim>\<open>Float32Array\<close>. \<^verbatim>\<open>Math.cos\<close> and
  \<^verbatim>\<open>Math.sin\<close> are implementation-approximated in ECMAScript, so they are taken as
  they come; \<open>mPI\<close> is the constant \<^verbatim>\<open>Math.PI\<close>.

  The arithmetic is a parameter of every operation of the model. Two instances are
  defined below: \<open>exact\<close> (no rounding at all) and \<open>ieee\<close> (round to nearest, ties to
  even, in binary64 and binary32). Integers that the program uses as indices and counts
  (\<^verbatim>\<open>i\<close>, \<^verbatim>\<open>idx\<close>, \<^verbatim>\<open>numParticles\<close>, \<^verbatim>\<open>gridWidth\<close>) are natural numbers: they stay
  far below \<open>2^53\<close>, where double arithmetic on integers is exact. The literals \<^verbatim>\<open>0\<close>,
  \<^verbatim>\<open>1.0\<close>, \<^verbatim>\<open>2\<close> and \<^verbatim>\<open>2.0\<close> are representable and stand for themselves; a decimal
  literal such as \<^verbatim>\<open>0.02\<close> denotes the nearest double, \<open>lit fp 0.02\<close>.
\<close>

record arith =
  rnd :: "real \<Rightarrow> real"
  fround :: "real \<Rightarrow> real"
  mcos :: "real \<Rightarrow> real"
  msin :: "real \<Rightarrow> real"
  mPI :: real

definition lit :: "arith \<Rightarrow> real \<Rightarrow> real" where
  "lit fp v = rnd fp v"

definition exact :: arith where
  "exact = \<lparr>rnd = (\<lambda>v. v), fround = (\<lambda>v. v), mcos = cos, msin = sin, mPI = pi\<rparr>"

text \<open>
  Rounding to nearest, ties to even, in a binary format of precision \<open>p\<close> whose normal
  numbers start at \<open>2 ^ emin\<close>: the rounded value is the multiple of the unit in the last
  place of \<open>v\<close> that is nearest to \<open>v\<close>, the even multiple when two are equally near.
  The largest finite number of the format is left out: nothing here comes near it.
\<close>

definition round_even :: "real \<Rightarrow> int" where
  "round_even t =
     (let f = \<lfloor>t\<rfloor> in
      if t - of_int f < 1 / 2 then f
      else if 1 / 2 < t - of_int f then f + 1
      else if even f then f else f + 1)"

definition ulp_exp :: "nat \<Rightarrow> int \<Rightarrow> real \<Rightarrow> int" where
  "ulp_exp p emin v = max \<lfloor>log 2 \<bar>v\<bar>\<rfloor> emin - int p + 1"

definition round_to :: "nat \<Rightarrow> int \<Rightarrow> real \<Rightarrow> real" where
  "round_to p emin v =
     (if v = 0 then 0
      else of_int (round_even (v / 2 powi ulp_exp p emin v)) * 2 powi ulp_exp p emin v)"

definition rnd64 :: "real \<Rightarrow> real" where
  "rnd64 v = round_to 53 (- 1022) v"

definition fround32 :: "real \<Rightarrow> real" where
  "fround32 v = round_to 24 (- 126) v"

text \<open>
  The arithmetic of the language: binary64 for numbers, binary32 in the
  \<^verbatim>\<open>Float32Array\<close>. \<^verbatim>\<open>Math.cos\<close> and \<^verbatim>\<open>Math.sin\<close> are the cosine and the sine
  rounded to a double, as a correctly rounding library returns them (the results below
  use of them only that they lie between -1 and 1); \<^verbatim>\<open>Math.PI\<close> is the double
  \<open>884279719003555 / 2 ^ 48\<close>.
\<close>

definition ieee :: arith where
  "ieee =
     \<lparr>rnd = rnd64, fround = fround32,
      mcos = (\<lambda>v. rnd64 (cos v)), msin = (\<lambda>v. rnd64 (sin v)),
      mPI = 884279719003555 / 2 ^ 48\<rparr>"

section \<open>Data model\<close>

record position =
  x :: real
  y :: real

record particle =
  position :: position
  rotation :: real
  speed :: real
  radius :: real

text \<open>
  The calls that \<^verbatim>\<open>draw\<close> and \<^verbatim>\<open>updateParticles\<close> issue to the WebGL context are
  recorded in the order they are made. (The calls made while the context, the shaders and
  the scene are set up return nothing that the particle code reads; of those only the
  ones that can make the constructor throw are modelled, through \<open>backend\<close> below.)
\<close>

datatype draw_mode = LINES

datatype gl_call =
    Clear
  | BufferData "real list"
  | DrawArrays draw_mode nat nat
  | Flush
  | LineWidth nat

record particle_system =
  numParticles :: nat
  particles :: "particle list"
  vertices :: "real list"
  gl_calls :: "gl_call list"

datatype error =
    CanvasNotFound
  | WebGLNotSupported
  | FailedToCreateShader
  | ShaderCompilationError
  | FailedToCreateShaderProgram
  | UnableToInitializeShaders
  | UnableToGetUniformLocations
  | FailedToCreateVertexBuffer
  | TypeError

datatype shader_type = VERTEX_SHADER | FRAGMENT_SHADER

text \<open>
  What the browser answers to the calls of the constructor that can fail: whether the
  canvas element exists, whether a context is handed out, whether shader, program and
  buffer objects are created, whether compiling and linking succeed, whether the two
  uniforms are found.
\<close>

record backend =
  canvas_found :: bool
  context_webgl :: bool
  context_experimental :: bool
  shader_created :: "shader_type \<Rightarrow> bool"
  compile_status :: "shader_type \<Rightarrow> bool"
  program_created :: bool
  link_status :: bool
  uniform_modelView :: bool
  uniform_perspective :: bool
  buffer_created :: bool

section \<open>ParticleSystem: set-up\<close>

definition initWebGL :: "backend \<Rightarrow> error + unit" where
  "initWebGL env =
     (if \<not> (context_webgl env \<or> context_experimental env) then Inl WebGLNotSupported
      else Inr ())"

definition compileShader :: "backend \<Rightarrow> shader_type \<Rightarrow> error + unit" where
  "compileShader env ty =
     (if \<not> shader_created env ty then Inl FailedToCreateShader
      else if \<not> compile_status env ty then Inl ShaderCompilationError
      else Inr ())"

definition initShaders :: "backend \<Rightarrow> error + unit" where
  "initShaders env =
     (case compileShader env VERTEX_SHADER of
        Inl e \<Rightarrow> Inl e
      | Inr _ \<Rightarrow>
         (case compileShader env FRAGMENT_SHADER of
            Inl e \<Rightarrow> Inl e
          | Inr _ \<Rightarrow>
             if \<not> program_created env then Inl FailedToCreateShaderProgram
             else if \<not> link_status env then Inl UnableToInitializeShaders
             else Inr ()))"

definition setupScene :: "backend \<Rightarrow> error + unit" where
  "setupScene env =
     (if \<not> uniform_modelView env \<or> \<not> uniform_perspective env
      then Inl UnableToGetUniformLocations
      else Inr ())"

text \<open>
  \<^verbatim>\<open>createParticles\<close>. The loop pushes one particle per index; \<open>k\<close> counts the calls of
  \<^verbatim>\<open>Math.random()\<close> made so far, \<open>rand k\<close> being the value of call number \<open>k\<close>.
\<close>

function createLoop ::
  "arith \<Rightarrow> (nat \<Rightarrow> real) \<Rightarrow> nat \<Rightarrow> real \<Rightarrow> nat \<Rightarrow> nat \<Rightarrow> nat \<Rightarrow> particle list
     \<Rightarrow> particle list" where
  "createLoop fp rand gridWidth cellSize n i k ps =
     (if i < n then
        let px = rnd fp (rnd fp (real (i mod gridWidth) * cellSize) - 1);
            py = rnd fp (rnd fp (real_of_int \<lfloor>rnd fp (real i / real gridWidth)\<rfloor> * cellSize) - 1);
            p = \<lparr>position = \<lparr>x = px, y = py\<rparr>,
                 rotation = rnd fp (rnd fp (rand k * mPI fp) * 2),
                 speed = rnd fp (rnd fp (rand (k + 1) * lit fp 0.02) + lit fp 0.01),
                 radius = rnd fp (rnd fp (rand (k + 2) * lit fp 0.1) + lit fp 0.05)\<rparr>
        in createLoop fp rand gridWidth cellSize n (i + 1) (k + 3) (ps @ [p])
      else ps)"
  by pat_completeness auto
termination
  by (relation "measure (\<lambda>(fp, rand, gridWidth, cellSize, n, i, k, ps). n - i)") auto

declare createLoop.simps [simp del]

text \<open>
  The fields are assigned before the vertex buffer is requested, so they keep their new
  values when \<^verbatim>\<open>createBuffer\<close> returns null and the method throws: the result is the
  system as the method leaves it, and the error thrown, if any.
\<close>

definition createParticles ::
  "arith \<Rightarrow> (nat \<Rightarrow> real) \<Rightarrow> backend \<Rightarrow> particle_system \<Rightarrow> particle_system \<times> error option" where
  "createParticles fp rand env s =
     (let s = s\<lparr>numParticles := 80000\<rparr>;
          s = s\<lparr>particles := []\<rparr>;
          s = s\<lparr>vertices := replicate (numParticles s * 6) 0\<rparr>;
          gridWidth = nat \<lceil>rnd fp (sqrt (real (numParticles s)))\<rceil>;
          cellSize = rnd fp (2 / real gridWidth);
          s = s\<lparr>particles :=
                 createLoop fp rand gridWidth cellSize (numParticles s) 0 0 (particles s)\<rparr>
      in if \<not> buffer_created env then (s, Some FailedToCreateVertexBuffer) else (s, None))"

section \<open>ParticleSystem: the tick\<close>

text \<open>
  Reading \<^verbatim>\<open>this.particles[i]\<close> beyond the end of the array gives \<^verbatim>\<open>undefined\<close>, and
  reading a property of \<^verbatim>\<open>undefined\<close> throws a \<^verbatim>\<open>TypeError\<close>. A store into a
  \<^verbatim>\<open>Float32Array\<close> beyond its end is ignored, as \<open>xs[i := v]\<close> is.
\<close>

definition lookup :: "'a list \<Rightarrow> nat \<Rightarrow> 'a option" where
  "lookup xs i = (if i < length xs then Some (xs ! i) else None)"

function updateLoop ::
  "arith \<Rightarrow> nat \<Rightarrow> particle list \<Rightarrow> real list \<Rightarrow> error + particle list \<times> real list" where
  "updateLoop fp i ps vs =
     (if i < length ps then
        (case lookup ps i of
           None \<Rightarrow> Inl TypeError
         | Some particle0 \<Rightarrow>
             let particle = particle0\<lparr>rotation := rnd fp (rotation particle0 + speed particle0)\<rparr>;
                 ps = ps[i := particle];
                 idx = i * 6;
                 r = radius particle;
                 cos_r = rnd fp (mcos fp (rotation particle) * r);
                 sin_r = rnd fp (msin fp (rotation particle) * r);
                 vs = vs[idx := fround fp (rnd fp (x (position particle) + cos_r))];
                 vs = vs[idx + 1 := fround fp (rnd fp (y (position particle) + sin_r))];
                 vs = vs[idx + 2 := 0];
                 vs = vs[idx + 3 := fround fp (rnd fp (x (position particle) - cos_r))];
                 vs = vs[idx + 4 := fround fp (rnd fp (y (position particle) - sin_r))];
                 vs = vs[idx + 5 := 0]
             in updateLoop fp (i + 1) ps vs)
      else Inr (ps, vs))"
  by pat_completeness auto
termination
  by (relation "measure (\<lambda>(fp, i, ps, vs). length ps - i)") auto

declare updateLoop.simps [simp del]

definition updateParticles :: "arith \<Rightarrow> particle_system \<Rightarrow> error + particle_system" where
  "updateParticles fp s =
     (case updateLoop fp 0 (particles s) (vertices s) of
        Inl e \<Rightarrow> Inl e
      | Inr (ps, vs) \<Rightarrow>
          Inr (s\<lparr>particles := ps, vertices := vs, gl_calls := gl_calls s @ [BufferData vs]\<rparr>))"

definition draw :: "arith \<Rightarrow> particle_system \<Rightarrow> error + particle_system" where
  "draw fp s =
     (let s = s\<lparr>gl_calls := gl_calls s @ [Clear]\<rparr>
      in case updateParticles fp s of
           Inl e \<Rightarrow> Inl e
         | Inr s \<Rightarrow>
             let s = s\<lparr>gl_calls := gl_calls s @ [DrawArrays LINES 0 (numParticles s * 2)]\<rparr>;
                 s = s\<lparr>gl_calls := gl_calls s @ [Flush]\<rparr>
             in Inr s)"

text \<open>
  \<^verbatim>\<open>animate\<close> draws one frame and asks the browser to be called again; \<open>animate fp n s\<close>
  is the system after the browser has delivered \<open>n\<close> frames.
\<close>

fun animate :: "arith \<Rightarrow> nat \<Rightarrow> particle_system \<Rightarrow> error + particle_system" where
  "animate fp 0 s = Inr s"
| "animate fp (Suc n) s =
     (case draw fp s of Inl e \<Rightarrow> Inl e | Inr s \<Rightarrow> animate fp n s)"

text \<open>\<open>ticks fp n s\<close>: \<open>n\<close> calls of \<^verbatim>\<open>updateParticles\<close> in a row, nothing in between.\<close>

fun ticks :: "arith \<Rightarrow> nat \<Rightarrow> particle_system \<Rightarrow> error + particle_system" where
  "ticks fp 0 s = Inr s"
| "ticks fp (Suc n) s =
     (case updateParticles fp s of Inl e \<Rightarrow> Inl e | Inr s \<Rightarrow> ticks fp n s)"

section \<open>ParticleSystem: constructor and public methods\<close>

text \<open>
  The constructor runs the set-up in the order of the source and then draws the first
  frame. An exception leaves no object behind, so the result is the error alone.
\<close>

definition constructor ::
  "arith \<Rightarrow> (nat \<Rightarrow> real) \<Rightarrow> backend \<Rightarrow> error + particle_system" where
  "constructor fp rand env =
     (if \<not> canvas_found env then Inl CanvasNotFound
      else case initWebGL env of
        Inl e \<Rightarrow> Inl e
      | Inr _ \<Rightarrow>
         (case initShaders env of
            Inl e \<Rightarrow> Inl e
          | Inr _ \<Rightarrow>
             (case setupScene env of
                Inl e \<Rightarrow> Inl e
              | Inr _ \<Rightarrow>
                 (case createParticles fp rand env
                         \<lparr>numParticles = 0, particles = [], vertices = [], gl_calls = []\<rparr> of
                    (s, Some e) \<Rightarrow> Inl e
                  | (s, None) \<Rightarrow> draw fp s))))"

definition setParticleCount ::
  "arith \<Rightarrow> (nat \<Rightarrow> real) \<Rightarrow> backend \<Rightarrow> nat \<Rightarrow> particle_system
     \<Rightarrow> particle_system \<times> error option" where
  "setParticleCount fp rand env count s =
     (let s = s\<lparr>numParticles := count\<rparr>
      in createParticles fp rand env s)"

text \<open>
  The states a running page can be in: the one the constructor returns, and from there
  any number of ticks, frames and calls of \<^verbatim>\<open>setParticleCount\<close>, whatever the random
  source and the browser answer.
\<close>

inductive reachable :: "arith \<Rightarrow> particle_system \<Rightarrow> bool" for fp :: arith where
  reach_new: "constructor fp rand env = Inr s \<Longrightarrow> reachable fp s"
| reach_tick: "reachable fp s \<Longrightarrow> updateParticles fp s = Inr s' \<Longrightarrow> reachable fp s'"
| reach_frame: "reachable fp s \<Longrightarrow> draw fp s = Inr s' \<Longrightarrow> reachable fp s'"
| reach_count:
    "reachable fp s \<Longrightarrow> setParticleCount fp rand env count s = (s', e) \<Longrightarrow> reachable fp s'"

section \<open>The line animation of the second script\<close>

text \<open>
  The repository's other script animates \<^verbatim>\<open>numLines\<close> line segments around a set of
  targets, with global variables instead of a class. Modelled here: \<^verbatim>\<open>draw00\<close> (the
  per-frame update) and \<^verbatim>\<open>drawScene\<close> (the frame). The fields \<^verbatim>\<open>x\<close>, \<^verbatim>\<open>y\<close>,
  \<^verbatim>\<open>rotate\<close>, \<^verbatim>\<open>radius\<close> and \<^verbatim>\<open>speed\<close> of a target are prefixed (the particle's fields
  and a list function have these names already); so are the script's \<^verbatim>\<open>vertices\<close>.
\<close>

record target =
  target_x :: real
  target_y :: real
  target_rotate :: real
  target_radius :: real
  bold_rate :: real
  rotate_speed :: real
  friction :: real
  target_speed :: real
  step :: real
  freq :: real

record scene =
  numLines :: nat
  scene_vertices :: "real list"
  targetArr :: "target list"
  scene_calls :: "gl_call list"

text \<open>
  The second loop of \<^verbatim>\<open>draw00\<close>. With no target, \<^verbatim>\<open>ii % targetArr.length\<close> is NaN,
  \<^verbatim>\<open>targetArr[NaN]\<close> is \<^verbatim>\<open>undefined\<close> and reading its \<^verbatim>\<open>rotate\<close> throws. The
  reads \<^verbatim>\<open>vertices[bp + 3]\<close> and \<^verbatim>\<open>vertices[bp + 4]\<close> are within the buffer that
  \<^verbatim>\<open>setup00\<close> allocates (six entries per line).
\<close>

function draw00Loop ::
  "arith \<Rightarrow> nat \<Rightarrow> target list \<Rightarrow> nat \<Rightarrow> real list \<Rightarrow> error + real list" where
  "draw00Loop fp n ts ii vs =
     (if ii < n * 2 then
        (case lookup ts (ii mod length ts) of
           None \<Rightarrow> Inl TypeError
         | Some tg \<Rightarrow>
             let bp = ii * 3;
                 tRad = rnd fp (mcos fp (rnd fp (rnd fp (target_rotate tg * lit fp 2.321)
                          + rnd fp (freq tg * real ii))) * bold_rate tg);
                 tX = rnd fp (target_x tg
                          + rnd fp (mcos fp (rnd fp (target_rotate tg + rnd fp (step tg * real ii))) * tRad));
                 tY = rnd fp (target_y tg
                          + rnd fp (msin fp (rnd fp (target_rotate tg + rnd fp (step tg * real ii))) * tRad));
                 px = vs ! (bp + 3);
                 py = vs ! (bp + 4);
                 px = rnd fp (px + rnd fp (rnd fp (tX - px) * lit fp 0.1));
                 py = rnd fp (py + rnd fp (rnd fp (tY - py) * lit fp 0.1));
                 vs = vs[bp + 3 := fround fp px];
                 vs = vs[bp + 4 := fround fp py];
                 vs = vs[bp := fround fp (rnd fp (px - lit fp 0.001))];
                 vs = vs[bp + 1 := fround fp (rnd fp (py - lit fp 0.001))]
             in draw00Loop fp n ts (ii + 2) vs)
      else Inr vs)"
  by pat_completeness auto
termination
  by (relation "measure (\<lambda>(fp, n, ts, ii, vs). n * 2 - ii)") auto

declare draw00Loop.simps [simp del]

definition draw00 :: "arith \<Rightarrow> scene \<Rightarrow> error + scene" where
  "draw00 fp sc =
     (let ts = map (\<lambda>tg. tg\<lparr>target_rotate := rnd fp (target_rotate tg + rotate_speed tg)\<rparr>) (targetArr sc)
      in case draw00Loop fp (numLines sc) ts 0 (scene_vertices sc) of
           Inl e \<Rightarrow> Inl e
         | Inr vs \<Rightarrow> Inr (sc\<lparr>targetArr := ts, scene_vertices := vs\<rparr>))"

definition drawScene :: "arith \<Rightarrow> scene \<Rightarrow> error + scene" where
  "drawScene fp sc =
     (case draw00 fp sc of
        Inl e \<Rightarrow> Inl e
      | Inr sc \<Rightarrow>
          Inr (sc\<lparr>scene_calls := scene_calls sc @
                 [LineWidth 2, BufferData (scene_vertices sc), Clear,
                  DrawArrays LINES 0 (numLines sc), Flush]\<rparr>))"

section \<open>Auxiliary definitions\<close>

text \<open>
  What one pass of the loop body does to a particle (\<open>spin\<close>) and the six numbers it
  stores for it (\<open>segment\<close>, of the particle as already rotated).
\<close>

definition spin :: "arith \<Rightarrow> particle \<Rightarrow> particle" where
  "spin fp p = p\<lparr>rotation := rnd fp (rotation p + speed p)\<rparr>"

definition segment :: "arith \<Rightarrow> particle \<Rightarrow> real list" where
  "segment fp p =
     [fround fp (rnd fp (x (position p) + rnd fp (mcos fp (rotation p) * radius p))),
      fround fp (rnd fp (y (position p) + rnd fp (msin fp (rotation p) * radius p))),
      0,
      fround fp (rnd fp (x (position p) - rnd fp (mcos fp (rotation p) * radius p))),
      fround fp (rnd fp (y (position p) - rnd fp (msin fp (rotation p) * radius p))),
      0]"

definition writeSeg :: "nat \<Rightarrow> real list \<Rightarrow> real list \<Rightarrow> real list" where
  "writeSeg i sg vs =
     vs[i * 6 := sg ! 0, i * 6 + 1 := sg ! 1, i * 6 + 2 := sg ! 2,
        i * 6 + 3 := sg ! 3, i * 6 + 4 := sg ! 4, i * 6 + 5 := sg ! 5]"

text \<open>The particle pushed at index \<open>i\<close> when \<open>k\<close> random numbers have been drawn before.\<close>

definition newParticle ::
  "arith \<Rightarrow> (nat \<Rightarrow> real) \<Rightarrow> nat \<Rightarrow> real \<Rightarrow> nat \<Rightarrow> nat \<Rightarrow> particle" where
  "newParticle fp rand gridWidth cellSize i k =
     \<lparr>position =
        \<lparr>x = rnd fp (rnd fp (real (i mod gridWidth) * cellSize) - 1),
         y = rnd fp (rnd fp (real_of_int \<lfloor>rnd fp (real i / real gridWidth)\<rfloor> * cellSize) - 1)\<rparr>,
      rotation = rnd fp (rnd fp (rand k * mPI fp) * 2),
      speed = rnd fp (rnd fp (rand (k + 1) * lit fp 0.02) + lit fp 0.01),
      radius = rnd fp (rnd fp (rand (k + 2) * lit fp 0.1) + lit fp 0.05)\<rparr>"

text \<open>One pass of the body of the second loop of \<^verbatim>\<open>draw00\<close>.\<close>

definition draw00Body :: "arith \<Rightarrow> target \<Rightarrow> nat \<Rightarrow> real list \<Rightarrow> real list" where
  "draw00Body fp tg ii vs =
     (let bp = ii * 3;
          tRad = rnd fp (mcos fp (rnd fp (rnd fp (target_rotate tg * lit fp 2.321)
                   + rnd fp (freq tg * real ii))) * bold_rate tg);
          tX = rnd fp (target_x tg
                   + rnd fp (mcos fp (rnd fp (target_rotate tg + rnd fp (step tg * real ii))) * tRad));
          tY = rnd fp (target_y tg
                   + rnd fp (msin fp (rnd fp (target_rotate tg + rnd fp (step tg * real ii))) * tRad));
          px = vs ! (bp + 3);
          py = vs ! (bp + 4);
          px = rnd fp (px + rnd fp (rnd fp (tX - px) * lit fp 0.1));
          py = rnd fp (py + rnd fp (rnd fp (tY - py) * lit fp 0.1));
          vs = vs[bp + 3 := fround fp px];
          vs = vs[bp + 4 := fround fp py];
          vs = vs[bp := fround fp (rnd fp (px - lit fp 0.001))];
          vs = vs[bp + 1 := fround fp (rnd fp (py - lit fp 0.001))]
      in vs)"

text \<open>
  Two facts hold of the system whenever a method has returned: the buffer has six
  entries per particle, and \<^verbatim>\<open>numParticles\<close> is the length of the particle array.
\<close>

definition aligned :: "particle_system \<Rightarrow> bool" where
  "aligned s \<longleftrightarrow>
     length (vertices s) = length (particles s) * 6 \<and> numParticles s = length (particles s)"

text \<open>A browser in which nothing fails, and the system it gives.\<close>

definition working :: backend where
  "working =
     \<lparr>canvas_found = True, context_webgl = True, context_experimental = False,
      shader_created = (\<lambda>ty. True), compile_status = (\<lambda>ty. True),
      program_created = True, link_status = True,
      uniform_modelView = True, uniform_perspective = True, buffer_created = True\<rparr>"

definition one_particle :: particle_system where
  "one_particle =
     \<lparr>numParticles = 1,
      particles = [\<lparr>position = \<lparr>x = 1, y = 2\<rparr>, rotation = - 1, speed = 1, radius = 3\<rparr>],
      vertices = [7, 7, 7, 7, 7, 7],
      gl_calls = []\<rparr>"

text \<open>
  Two systems for concrete runs in double arithmetic: the particles as
  \<^verbatim>\<open>createParticles\<close> makes them when every \<^verbatim>\<open>Math.random()\<close> returns 0.25, and a
  single particle at the corner (-1, -1) of the grid.
\<close>

definition quarter_system :: particle_system where
  "quarter_system =
     fst (createParticles ieee (\<lambda>k. 1 / 4) working
            \<lparr>numParticles = 0, particles = [], vertices = [], gl_calls = []\<rparr>)"

definition saturated :: particle_system where
  "saturated =
     \<lparr>numParticles = 1,
      particles = [\<lparr>position = \<lparr>x = - 1, y = - 1\<rparr>, rotation = 2 ^ 53, speed = 1 / 64,
                    radius = 1 / 16\<rparr>],
      vertices = [0, 0, 0, 0, 0, 0],
      gl_calls = []\<rparr>"

section \<open>Rounding to nearest\<close>

lemma round_even_cases: "round_even t = \<lfloor>t\<rfloor> \<or> round_even t = \<lfloor>t\<rfloor> + 1"
  by (simp add: round_even_def Let_def)

lemma round_even_error: "\<bar>of_int (round_even t) - t\<bar> \<le> 1 / 2"
  unfolding round_even_def Let_def by (auto split: if_splits)

lemma round_even_of_int [simp]: "round_even (of_int n) = n"
  by (simp add: round_even_def)

lemma round_even_mono: "t \<le> u \<Longrightarrow> round_even t \<le> round_even u"
proof -
  assume tu: "t \<le> u"
  then have f: "\<lfloor>t\<rfloor> \<le> \<lfloor>u\<rfloor>" by (rule floor_mono)
  show ?thesis
  proof (cases "\<lfloor>t\<rfloor> = \<lfloor>u\<rfloor>")
    case True
    then show ?thesis using tu
      by (auto simp: round_even_def Let_def)
  next
    case False
    with f have "\<lfloor>t\<rfloor> + 1 \<le> \<lfloor>u\<rfloor>" by simp
    moreover have "round_even t \<le> \<lfloor>t\<rfloor> + 1" using round_even_cases [of t] by auto
    moreover have "\<lfloor>u\<rfloor> \<le> round_even u" using round_even_cases [of u] by auto
    ultimately show ?thesis by linarith
  qed
qed

lemma round_even_uminus: "round_even (- t) = - round_even t"
proof (cases "t \<in> \<int>")
  case True
  then obtain n where "t = of_int n" by (auto elim: Ints_cases)
  then have "- t = of_int (- n)" by simp
  then show ?thesis using \<open>t = of_int n\<close> by (metis round_even_of_int)
next
  case False
  then have "t \<noteq> of_int \<lfloor>t\<rfloor>" by (metis Ints_of_int)
  then have fl: "\<lfloor>- t\<rfloor> = - \<lfloor>t\<rfloor> - 1"
    by (simp add: ceiling_altdef floor_minus)
  have even_iff: "even (- \<lfloor>t\<rfloor> - 1) \<longleftrightarrow> odd \<lfloor>t\<rfloor>" by simp
  show ?thesis
    unfolding round_even_def Let_def fl even_iff
    by (auto split: if_splits)
qed

lemma binade:
  assumes "v \<noteq> 0"
  shows "2 powi \<lfloor>log 2 \<bar>v\<bar>\<rfloor> \<le> \<bar>v\<bar>" and "\<bar>v\<bar> < 2 powi (\<lfloor>log 2 \<bar>v\<bar>\<rfloor> + 1)"
proof -
  have "0 < \<bar>v\<bar>" using assms by simp
  then have "2 powr real_of_int \<lfloor>log 2 \<bar>v\<bar>\<rfloor> \<le> \<bar>v\<bar> \<and> \<bar>v\<bar> < 2 powr (real_of_int \<lfloor>log 2 \<bar>v\<bar>\<rfloor> + 1)"
    using floor_log_eq_powr_iff [of "\<bar>v\<bar>" 2 "\<lfloor>log 2 \<bar>v\<bar>\<rfloor>"] by simp
  moreover have "real_of_int \<lfloor>log 2 \<bar>v\<bar>\<rfloor> + 1 = real_of_int (\<lfloor>log 2 \<bar>v\<bar>\<rfloor> + 1)" by simp
  ultimately show "2 powi \<lfloor>log 2 \<bar>v\<bar>\<rfloor> \<le> \<bar>v\<bar>" and "\<bar>v\<bar> < 2 powi (\<lfloor>log 2 \<bar>v\<bar>\<rfloor> + 1)"
    by (simp_all only: powr_real_of_int' [of 2, simplified])
qed

lemma floor_log_eqI:
  assumes "2 powi k \<le> \<bar>v\<bar>" "\<bar>v\<bar> < 2 powi (k + 1)"
  shows "\<lfloor>log 2 \<bar>v\<bar>\<rfloor> = k"
proof -
  have "(0::real) < 2 powi k" by simp
  then have pos: "0 < \<bar>v\<bar>" using assms(1) by linarith
  have "2 powr real_of_int k \<le> \<bar>v\<bar>" "\<bar>v\<bar> < 2 powr (real_of_int k + 1)"
    using assms powr_real_of_int' [of 2 k] powr_real_of_int' [of 2 "k + 1"] by simp_all
  then show ?thesis
    using floor_log_eq_powr_iff [OF pos, of 2 k] by simp
qed

lemma ulp_exp_eq:
  assumes "2 powi k \<le> \<bar>v\<bar>" "\<bar>v\<bar> < 2 powi (k + 1)" "emin \<le> k"
  shows "ulp_exp p emin v = k - int p + 1"
  using floor_log_eqI [OF assms(1,2)] assms(3) by (simp add: ulp_exp_def)

lemma round_to_eval:
  assumes "2 powi k \<le> \<bar>v\<bar>" "\<bar>v\<bar> < 2 powi (k + 1)" "emin \<le> k"
  shows "round_to p emin v =
           of_int (round_even (v / 2 powi (k - int p + 1))) * 2 powi (k - int p + 1)"
proof -
  have "(0::real) < 2 powi k" by simp
  then have "0 < \<bar>v\<bar>" using assms(1) by linarith
  then have "v \<noteq> 0" by simp
  then show ?thesis by (simp add: round_to_def ulp_exp_eq [OF assms])
qed

lemma round_to_0 [simp]: "round_to p emin 0 = 0"
  by (simp add: round_to_def)

lemma ulp_exp_uminus [simp]: "ulp_exp p emin (- v) = ulp_exp p emin v"
  by (simp add: ulp_exp_def)

lemma round_to_uminus: "round_to p emin (- v) = - round_to p emin v"
  by (simp add: round_to_def round_even_uminus)

lemma round_to_nonneg:
  assumes "0 \<le> v"
  shows "0 \<le> round_to p emin v"
proof -
  have "0 \<le> v / 2 powi ulp_exp p emin v" using assms by simp
  then have "round_even 0 \<le> round_even (v / 2 powi ulp_exp p emin v)"
    by (rule round_even_mono)
  moreover have "round_even 0 = 0" using round_even_of_int [of 0] by simp
  ultimately show ?thesis by (simp add: round_to_def)
qed

text \<open>Rounding does not step over a number of the grid it rounds to.\<close>

lemma round_to_le_grid:
  assumes "v \<noteq> 0" "v \<le> of_int n * 2 powi ulp_exp p emin v"
  shows "round_to p emin v \<le> of_int n * 2 powi ulp_exp p emin v"
proof -
  let ?q = "(2::real) powi ulp_exp p emin v"
  have q: "0 < ?q" by simp
  have "v / ?q \<le> of_int n" using assms(2) q by (simp add: field_simps)
  then have "round_even (v / ?q) \<le> n"
    using round_even_mono [of "v / ?q" "of_int n"] by simp
  then have "real_of_int (round_even (v / ?q)) * ?q \<le> of_int n * ?q"
    using q by (simp add: mult_right_mono)
  then show ?thesis using assms(1) by (simp add: round_to_def)
qed

lemma round_to_ge_grid:
  assumes "v \<noteq> 0" "of_int n * 2 powi ulp_exp p emin v \<le> v"
  shows "of_int n * 2 powi ulp_exp p emin v \<le> round_to p emin v"
proof -
  let ?q = "(2::real) powi ulp_exp p emin v"
  have q: "0 < ?q" by simp
  have "of_int n \<le> v / ?q" using assms(2) q by (simp add: field_simps)
  then have "n \<le> round_even (v / ?q)"
    using round_even_mono [of "of_int n" "v / ?q"] by simp
  then have "of_int n * ?q \<le> real_of_int (round_even (v / ?q)) * ?q"
    using q by (simp add: mult_right_mono)
  then show ?thesis using assms(1) by (simp add: round_to_def)
qed

lemma pow_on_grid:
  assumes "e \<le> k"
  shows "(2::real) powi k = of_int (2 ^ nat (k - e)) * 2 powi e"
proof -
  have "(2::real) powi k = 2 powi (k - e) * 2 powi e"
    by (simp add: power_int_add [symmetric])
  also have "(2::real) powi (k - e) = 2 ^ nat (k - e)"
    using assms by (simp add: power_int_def)
  finally show ?thesis by simp
qed

lemma round_to_le_pow:
  assumes "v \<noteq> 0" "v \<le> 2 powi k" "ulp_exp p emin v \<le> k"
  shows "round_to p emin v \<le> 2 powi k"
  using round_to_le_grid [OF assms(1), of "2 ^ nat (k - ulp_exp p emin v)"]
    assms(2) pow_on_grid [OF assms(3)] by simp

lemma round_to_ge_pow:
  assumes "v \<noteq> 0" "2 powi k \<le> v" "ulp_exp p emin v \<le> k"
  shows "2 powi k \<le> round_to p emin v"
  using round_to_ge_grid [OF assms(1), of "2 ^ nat (k - ulp_exp p emin v)"]
    assms(2) pow_on_grid [OF assms(3)] by simp

lemma round_to_mono_pos:
  assumes "0 < v" "v \<le> w" "0 < p"
  shows "round_to p emin v \<le> round_to p emin w"
proof -
  let ?kv = "max \<lfloor>log 2 \<bar>v\<bar>\<rfloor> emin" and ?kw = "max \<lfloor>log 2 \<bar>w\<bar>\<rfloor> emin"
  have w: "0 < w" using assms by simp
  have ev: "ulp_exp p emin v = ?kv - int p + 1" and ew: "ulp_exp p emin w = ?kw - int p + 1"
    by (simp_all add: ulp_exp_def)
  have "log 2 \<bar>v\<bar> \<le> log 2 \<bar>w\<bar>" using assms w by simp
  then have "\<lfloor>log 2 \<bar>v\<bar>\<rfloor> \<le> \<lfloor>log 2 \<bar>w\<bar>\<rfloor>" by (rule floor_mono)
  then have k: "?kv \<le> ?kw" by simp
  show ?thesis
  proof (cases "?kv = ?kw")
    case True
    then have e: "ulp_exp p emin v = ulp_exp p emin w" using ev ew by simp
    let ?q = "(2::real) powi ulp_exp p emin w"
    have "v / ?q \<le> w / ?q" using assms(2) by (simp add: divide_right_mono)
    then have "round_even (v / ?q) \<le> round_even (w / ?q)" by (rule round_even_mono)
    then have "real_of_int (round_even (v / ?q)) * ?q \<le> real_of_int (round_even (w / ?q)) * ?q"
      by (simp add: mult_right_mono)
    then show ?thesis using assms(1) w e by (simp add: round_to_def)
  next
    case False
    with k have lt: "?kv + 1 \<le> ?kw" by linarith
    then have kw: "?kw = \<lfloor>log 2 \<bar>w\<bar>\<rfloor>" by linarith
    have "\<bar>v\<bar> < 2 powi (\<lfloor>log 2 \<bar>v\<bar>\<rfloor> + 1)" using binade(2) [of v] assms(1) by simp
    also have "\<dots> \<le> 2 powi (?kv + 1)" by (rule power_int_increasing) simp_all
    finally have "v \<le> 2 powi (?kv + 1)" using assms(1) by simp
    then have a: "round_to p emin v \<le> 2 powi (?kv + 1)"
      using assms(1,3) by (intro round_to_le_pow) (simp_all add: ev)
    have "2 powi ?kw \<le> \<bar>w\<bar>" using binade(1) [of w] w kw by simp
    then have "2 powi ?kw \<le> w" using w by simp
    then have b: "2 powi ?kw \<le> round_to p emin w"
      using w assms(3) by (intro round_to_ge_pow) (simp_all add: ew)
    have "(2::real) powi (?kv + 1) \<le> 2 powi ?kw"
      using lt by (intro power_int_increasing) simp_all
    with a b show ?thesis by linarith
  qed
qed

lemma round_to_mono:
  assumes "v \<le> w" "0 < p"
  shows "round_to p emin v \<le> round_to p emin w"
proof -
  consider "0 < v" | "v \<le> 0" "0 \<le> w" | "w < 0" by linarith
  then show ?thesis
  proof cases
    case 1
    then show ?thesis using assms by (rule round_to_mono_pos)
  next
    case 2
    have "round_to p emin v = - round_to p emin (- v)" by (simp add: round_to_uminus)
    moreover have "0 \<le> round_to p emin (- v)" using 2(1) by (intro round_to_nonneg) simp
    moreover have "0 \<le> round_to p emin w" using 2(2) by (rule round_to_nonneg)
    ultimately show ?thesis by linarith
  next
    case 3
    then have "0 < - w" "- w \<le> - v" using assms(1) by simp_all
    then have "round_to p emin (- w) \<le> round_to p emin (- v)"
      using assms(2) by (rule round_to_mono_pos)
    then show ?thesis by (simp add: round_to_uminus)
  qed
qed

text \<open>The result is a multiple of the unit in the last place, at most half a unit away.\<close>

lemma round_to_error:
  "\<bar>round_to p emin v - v\<bar> \<le> 2 powi ulp_exp p emin v / 2"
proof (cases "v = 0")
  case True
  then show ?thesis by simp
next
  case False
  let ?q = "(2::real) powi ulp_exp p emin v"
  have q: "0 < ?q" by simp
  have "round_to p emin v - v = (real_of_int (round_even (v / ?q)) - v / ?q) * ?q"
    using False q by (simp add: round_to_def field_simps)
  then have "\<bar>round_to p emin v - v\<bar> = \<bar>real_of_int (round_even (v / ?q)) - v / ?q\<bar> * ?q"
    using q by (simp add: abs_mult)
  also have "\<dots> \<le> 1 / 2 * ?q"
    using round_even_error [of "v / ?q"] q by (intro mult_right_mono) simp_all
  finally show ?thesis by simp
qed

lemma round_to_grid:
  assumes "2 powi k \<le> \<bar>v\<bar>" "emin \<le> k" "0 < p"
  shows "\<exists>n::int. round_to p emin v = of_int n * 2 powi (k - int p + 1)"
proof -
  have "(0::real) < 2 powi k" by simp
  then have pos: "0 < \<bar>v\<bar>" using assms(1) by linarith
  then have v: "v \<noteq> 0" by simp
  have "real_of_int k \<le> log 2 \<bar>v\<bar>"
    using assms(1) pos powr_real_of_int' [of 2 k] by (simp add: le_log_iff)
  then have "k \<le> \<lfloor>log 2 \<bar>v\<bar>\<rfloor>" by (simp add: le_floor_iff)
  then have e: "k - int p + 1 \<le> ulp_exp p emin v" by (simp add: ulp_exp_def)
  let ?e = "ulp_exp p emin v"
  have "(2::real) powi ?e = of_int (2 ^ nat (?e - (k - int p + 1))) * 2 powi (k - int p + 1)"
    by (rule pow_on_grid [OF e])
  then have "round_to p emin v =
      of_int (round_even (v / 2 powi ?e) * 2 ^ nat (?e - (k - int p + 1))) * 2 powi (k - int p + 1)"
    using v by (simp add: round_to_def)
  then show ?thesis ..
qed

lemma round_even_eqI:
  assumes "\<bar>t - of_int n\<bar> < 1 / 2"
  shows "round_even t = n"
proof -
  have "\<bar>real_of_int (round_even t) - real_of_int n\<bar> < 1"
    using round_even_error [of t] assms by linarith
  then have "\<bar>real_of_int (round_even t - n)\<bar> < 1" by simp
  then have "\<bar>round_even t - n\<bar> < 1" by linarith
  then show ?thesis by simp
qed

lemma round_even_tie:
  assumes "\<bar>t - of_int n\<bar> = 1 / 2" "even n"
  shows "round_even t = n"
proof -
  consider "t = of_int n + 1 / 2" | "t = of_int (n - 1) + 1 / 2"
    using assms(1) by (auto simp: abs_if split: if_splits)
  then show ?thesis
  proof cases
    case 1
    then have "\<lfloor>t\<rfloor> = n" by (simp add: floor_eq_iff)
    then show ?thesis using 1 assms(2) by (simp add: round_even_def)
  next
    case 2
    then have "\<lfloor>t\<rfloor> = n - 1" by (simp add: floor_eq_iff)
    then show ?thesis using 2 assms(2) by (simp add: round_even_def)
  qed
qed

lemma round_to_eqI:
  assumes "2 powi k \<le> \<bar>v\<bar>" "\<bar>v\<bar> < 2 powi (k + 1)" "emin \<le> k"
    and "\<bar>v / 2 powi (k - int p + 1) - of_int n\<bar> < 1 / 2"
  shows "round_to p emin v = of_int n * 2 powi (k - int p + 1)"
  using round_to_eval [OF assms(1-3), of p] round_even_eqI [OF assms(4)] by simp

lemma round_to_tieI:
  assumes "2 powi k \<le> \<bar>v\<bar>" "\<bar>v\<bar> < 2 powi (k + 1)" "emin \<le> k"
    and "\<bar>v / 2 powi (k - int p + 1) - of_int n\<bar> = 1 / 2" "even n"
  shows "round_to p emin v = of_int n * 2 powi (k - int p + 1)"
  using round_to_eval [OF assms(1-3), of p] round_even_tie [OF assms(4,5)] by simp

lemma round_to_abs: "\<bar>round_to p emin v\<bar> = round_to p emin \<bar>v\<bar>"
proof (cases "0 \<le> v")
  case True
  then show ?thesis using round_to_nonneg [of v p emin] by simp
next
  case False
  then have "0 \<le> round_to p emin (- v)" by (intro round_to_nonneg) simp
  then show ?thesis using False by (simp add: round_to_uminus)
qed

lemma round_to_pow:
  assumes "emin \<le> k" "0 < p"
  shows "round_to p emin (2 powi k) = 2 powi k"
proof -
  let ?q = "(2::real) powi (k - int p + 1)"
  let ?n = "(2::int) ^ nat (k - (k - int p + 1))"
  have g: "(2::real) powi k = of_int ?n * ?q"
    by (rule pow_on_grid) (use assms(2) in simp)
  have "(2::real) powi k / ?q = of_int ?n * ?q / ?q" using g by simp
  then have "(2::real) powi k / ?q = of_int ?n" by simp
  then have r: "round_even (2 powi k / ?q) = ?n" by (simp only: round_even_of_int)
  have "round_to p emin (2 powi k) = of_int (round_even (2 powi k / ?q)) * ?q"
    by (rule round_to_eval) (use assms in \<open>simp_all add: power_int_add\<close>)
  then show ?thesis unfolding r using g by simp
qed

lemma round_to_abs_le_pow:
  assumes "\<bar>v\<bar> \<le> 2 powi k" "emin \<le> k" "0 < p"
  shows "\<bar>round_to p emin v\<bar> \<le> 2 powi k"
  using round_to_mono [OF assms(1,3), of emin] round_to_pow [OF assms(2,3)]
  by (simp add: round_to_abs)

lemma round_to_abs_ge_pow:
  assumes "2 powi k \<le> \<bar>v\<bar>" "emin \<le> k" "0 < p"
  shows "2 powi k \<le> \<bar>round_to p emin v\<bar>"
  using round_to_mono [OF assms(1,3), of emin] round_to_pow [OF assms(2,3)]
  by (simp add: round_to_abs)

lemma ieee_simps:
  "rnd ieee = rnd64" "fround ieee = fround32" "mcos ieee = (\<lambda>v. rnd64 (cos v))"
  "msin ieee = (\<lambda>v. rnd64 (sin v))" "mPI ieee = 884279719003555 / 2 ^ 48"
  "lit ieee v = rnd64 v"
  by (simp_all add: ieee_def lit_def)

lemma exact_simps:
  "rnd exact = (\<lambda>v. v)" "fround exact = (\<lambda>v. v)" "mcos exact = cos" "msin exact = sin"
  "mPI exact = pi" "lit exact v = v"
  by (simp_all add: exact_def lit_def)

lemma rnd64_mono: "v \<le> w \<Longrightarrow> rnd64 v \<le> rnd64 w"
  unfolding rnd64_def by (rule round_to_mono) simp_all

section \<open>The update loop\<close>

lemma length_writeSeg: "length (writeSeg i sg vs) = length vs"
  by (simp add: writeSeg_def)

lemma writeSeg_nth:
  assumes "j < length vs"
  shows "writeSeg i sg vs ! j = (if i * 6 \<le> j \<and> j < i * 6 + 6 then sg ! (j - i * 6) else vs ! j)"
proof -
  consider "j < i * 6" | "j = i * 6" | "j = i * 6 + 1" | "j = i * 6 + 2" | "j = i * 6 + 3"
    | "j = i * 6 + 4" | "j = i * 6 + 5" | "i * 6 + 6 \<le> j"
    by linarith
  then show ?thesis
    using assms by cases (simp_all add: writeSeg_def nth_list_update)
qed

lemma updateLoop_step:
  "i < length ps \<Longrightarrow>
     updateLoop fp i ps vs =
       updateLoop fp (i + 1) (ps[i := spin fp (ps ! i)])
         (writeSeg i (segment fp (spin fp (ps ! i))) vs)"
  by (subst updateLoop.simps)
     (simp add: lookup_def Let_def spin_def segment_def writeSeg_def)

lemma updateLoop_stop: "\<not> i < length ps \<Longrightarrow> updateLoop fp i ps vs = Inr (ps, vs)"
  by (subst updateLoop.simps) simp

lemma updateLoop_inv:
  "\<exists>vs'. updateLoop fp i ps vs = Inr (take i ps @ map (spin fp) (drop i ps), vs') \<and>
         length vs' = length vs \<and>
         (\<forall>j<length vs. vs' ! j =
            (if i * 6 \<le> j \<and> j < length ps * 6
             then segment fp (spin fp (ps ! (j div 6))) ! (j mod 6) else vs ! j))"
proof (induction "length ps - i" arbitrary: i ps vs)
  case 0
  then have stop: "\<not> i < length ps" by simp
  then show ?case
    by (simp add: updateLoop_stop)
next
  case (Suc n)
  then have i: "i < length ps" by simp
  let ?p = "spin fp (ps ! i)"
  let ?ps = "ps[i := ?p]"
  let ?vs = "writeSeg i (segment fp ?p) vs"
  have "n = length ?ps - (i + 1)" using Suc.hyps(2) by simp
  from Suc.hyps(1) [OF this, of ?vs]
  obtain vs' where run: "updateLoop fp (i + 1) ?ps ?vs
        = Inr (take (i + 1) ?ps @ map (spin fp) (drop (i + 1) ?ps), vs')"
    and len: "length vs' = length ?vs"
    and nth: "\<forall>j<length ?vs. vs' ! j =
            (if (i + 1) * 6 \<le> j \<and> j < length ?ps * 6
             then segment fp (spin fp (?ps ! (j div 6))) ! (j mod 6) else ?vs ! j)"
    by blast
  have ps_eq: "take (i + 1) ?ps @ map (spin fp) (drop (i + 1) ?ps)
      = take i ps @ map (spin fp) (drop i ps)"
  proof -
    have "take (i + 1) ?ps = take i ps @ [?p]"
      using i by (simp add: take_Suc_conv_app_nth)
    moreover have "drop (i + 1) ?ps = drop (Suc i) ps" by simp
    moreover have "drop i ps = ps ! i # drop (Suc i) ps"
      using i by (simp add: Cons_nth_drop_Suc)
    ultimately show ?thesis by simp
  qed
  have "vs' ! j =
          (if i * 6 \<le> j \<and> j < length ps * 6
           then segment fp (spin fp (ps ! (j div 6))) ! (j mod 6) else vs ! j)"
    if j: "j < length vs" for j
  proof -
    from j nth have v: "vs' ! j =
            (if (i + 1) * 6 \<le> j \<and> j < length ps * 6
             then segment fp (spin fp (?ps ! (j div 6))) ! (j mod 6) else ?vs ! j)"
      by (simp add: length_writeSeg)
    consider "j < i * 6" | "i * 6 \<le> j" "j < i * 6 + 6" | "i * 6 + 6 \<le> j" by linarith
    then show ?thesis
    proof cases
      case 1
      then show ?thesis using v j by (simp add: writeSeg_nth)
    next
      case 2
      then obtain k where k: "j = i * 6 + k" "k < 6"
        by (metis add_diff_inverse_nat less_diff_conv2 not_less add.commute)
      then have "j div 6 = i" "j mod 6 = j - i * 6"
        by simp_all
      then show ?thesis using v j 2 i by (simp add: writeSeg_nth)
    next
      case 3
      then have "(i + 1) * 6 \<le> j" by simp
      then have "i + 1 \<le> j div 6" by (simp add: less_eq_div_iff_mult_less_eq)
      then have "i < j div 6" by simp
      then show ?thesis using v j 3 by (simp add: writeSeg_nth)
    qed
  qed
  then show ?case
    using i run len ps_eq by (simp add: updateLoop_step [OF i] length_writeSeg)
qed

text \<open>The loop as a whole, started at index 0 as the source starts it.\<close>

lemma updateLoop_result:
  "\<exists>vs'. updateLoop fp 0 ps vs = Inr (map (spin fp) ps, vs') \<and>
         length vs' = length vs \<and>
         (\<forall>j<length vs. vs' ! j =
            (if j < length ps * 6
             then segment fp (spin fp (ps ! (j div 6))) ! (j mod 6) else vs ! j))"
  using updateLoop_inv [of fp 0 ps vs] by simp

lemma updateParticles_result:
  "\<exists>vs'. updateParticles fp s =
           Inr (s\<lparr>particles := map (spin fp) (particles s), vertices := vs',
                   gl_calls := gl_calls s @ [BufferData vs']\<rparr>) \<and>
         length vs' = length (vertices s) \<and>
         (\<forall>j<length (vertices s). vs' ! j =
            (if j < length (particles s) * 6
             then segment fp (spin fp (particles s ! (j div 6))) ! (j mod 6)
             else vertices s ! j))"
proof -
  obtain vs' where r:
    "updateLoop fp 0 (particles s) (vertices s) = Inr (map (spin fp) (particles s), vs')"
    "length vs' = length (vertices s)"
    "\<forall>j<length (vertices s). vs' ! j =
        (if j < length (particles s) * 6
         then segment fp (spin fp (particles s ! (j div 6))) ! (j mod 6) else vertices s ! j)"
    using updateLoop_result [of fp "particles s" "vertices s"] by blast
  show ?thesis
    by (rule exI [of _ vs']) (simp add: updateParticles_def r)
qed

section \<open>Creating the particles\<close>

lemma createLoop_step:
  "i < n \<Longrightarrow>
     createLoop fp rand gw cs n i k ps =
       createLoop fp rand gw cs n (i + 1) (k + 3) (ps @ [newParticle fp rand gw cs i k])"
  by (subst createLoop.simps) (simp add: Let_def newParticle_def)

lemma createLoop_stop: "\<not> i < n \<Longrightarrow> createLoop fp rand gw cs n i k ps = ps"
  by (subst createLoop.simps) simp

lemma createLoop_eq:
  "createLoop fp rand gw cs n i k ps =
     ps @ map (\<lambda>j. newParticle fp rand gw cs j (k + 3 * (j - i))) [i..<n]"
proof (induction "n - i" arbitrary: i k ps)
  case 0
  then show ?case by (simp add: createLoop_stop)
next
  case (Suc m)
  then have i: "i < n" by simp
  have m: "m = n - (i + 1)" using Suc.hyps(2) by simp
  have "map (\<lambda>j. newParticle fp rand gw cs j (k + 3 + 3 * (j - (i + 1)))) [i + 1..<n]
      = map (\<lambda>j. newParticle fp rand gw cs j (k + 3 * (j - i))) [i + 1..<n]"
  proof (rule map_cong [OF refl])
    fix j assume "j \<in> set [i + 1..<n]"
    then have "i < j" by simp
    then have "k + 3 + 3 * (j - (i + 1)) = k + 3 * (j - i)" by simp
    then show "newParticle fp rand gw cs j (k + 3 + 3 * (j - (i + 1)))
        = newParticle fp rand gw cs j (k + 3 * (j - i))"
      by (rule arg_cong)
  qed
  moreover have "[i..<n] = i # [i + 1..<n]"
    using i by (simp add: upt_conv_Cons)
  ultimately show ?case
    using Suc.hyps(1) [OF m, of "k + 3" "ps @ [newParticle fp rand gw cs i k]"]
    by (simp add: createLoop_step [OF i])
qed

lemma createParticles_particles:
  "particles (fst (createParticles fp rand env s)) =
     map (\<lambda>j. newParticle fp rand (nat \<lceil>rnd fp (sqrt 80000)\<rceil>)
                (rnd fp (2 / real (nat \<lceil>rnd fp (sqrt 80000)\<rceil>))) j (3 * j))
       [0..<80000]"
  by (simp add: createParticles_def Let_def createLoop_eq)

lemma createParticles_numParticles: "numParticles (fst (createParticles fp rand env s)) = 80000"
  by (simp add: createParticles_def Let_def)

lemma createParticles_vertices:
  "vertices (fst (createParticles fp rand env s)) = replicate (80000 * 6) 0"
  by (simp add: createParticles_def Let_def)

lemma createParticles_gl_calls: "gl_calls (fst (createParticles fp rand env s)) = gl_calls s"
  by (simp add: createParticles_def Let_def)

lemma createParticles_error:
  "snd (createParticles fp rand env s) =
     (if buffer_created env then None else Some FailedToCreateVertexBuffer)"
  by (simp add: createParticles_def Let_def)

lemma createParticles_length: "length (particles (fst (createParticles fp rand env s))) = 80000"
  by (simp add: createParticles_particles)

section \<open>Frames\<close>

lemma draw_result:
  "\<exists>vs'. draw fp s =
           Inr (s\<lparr>particles := map (spin fp) (particles s), vertices := vs',
                   gl_calls := gl_calls s @
                     [Clear, BufferData vs', DrawArrays LINES 0 (numParticles s * 2), Flush]\<rparr>) \<and>
         length vs' = length (vertices s) \<and>
         (\<forall>j<length (vertices s). vs' ! j =
            (if j < length (particles s) * 6
             then segment fp (spin fp (particles s ! (j div 6))) ! (j mod 6)
             else vertices s ! j))"
proof -
  let ?s = "s\<lparr>gl_calls := gl_calls s @ [Clear]\<rparr>"
  obtain vs' where r:
    "updateParticles fp ?s =
       Inr (?s\<lparr>particles := map (spin fp) (particles ?s), vertices := vs',
               gl_calls := gl_calls ?s @ [BufferData vs']\<rparr>)"
    "length vs' = length (vertices ?s)"
    "\<forall>j<length (vertices ?s). vs' ! j =
        (if j < length (particles ?s) * 6
         then segment fp (spin fp (particles ?s ! (j div 6))) ! (j mod 6)
         else vertices ?s ! j)"
    using updateParticles_result [of fp ?s] by blast
  show ?thesis
    using r(2,3) by (intro exI [of _ vs']) (simp add: draw_def Let_def r(1))
qed

lemma aligned_createParticles: "aligned (fst (createParticles fp rand env s))"
  by (simp add: aligned_def createParticles_length createParticles_vertices
      createParticles_numParticles)

lemma aligned_updateParticles:
  assumes "aligned s" "updateParticles fp s = Inr s'"
  shows "aligned s'"
proof -
  obtain vs' where
    "updateParticles fp s =
       Inr (s\<lparr>particles := map (spin fp) (particles s), vertices := vs',
               gl_calls := gl_calls s @ [BufferData vs']\<rparr>)"
    "length vs' = length (vertices s)"
    using updateParticles_result [of fp s] by blast
  with assms show ?thesis by (auto simp: aligned_def)
qed

lemma aligned_draw:
  assumes "aligned s" "draw fp s = Inr s'"
  shows "aligned s'"
proof -
  obtain vs' where
    "draw fp s =
       Inr (s\<lparr>particles := map (spin fp) (particles s), vertices := vs',
               gl_calls := gl_calls s @
                 [Clear, BufferData vs', DrawArrays LINES 0 (numParticles s * 2), Flush]\<rparr>)"
    "length vs' = length (vertices s)"
    using draw_result [of fp s] by blast
  with assms show ?thesis by (auto simp: aligned_def)
qed

lemma constructor_Inr:
  assumes "constructor fp rand env = Inr s"
  shows "draw fp (fst (createParticles fp rand env
            \<lparr>numParticles = 0, particles = [], vertices = [], gl_calls = []\<rparr>)) = Inr s"
  using assms
  by (auto simp: constructor_def split: if_splits sum.splits prod.splits option.splits)

lemma aligned_reachable: "reachable fp s \<Longrightarrow> aligned s"
proof (induction rule: reachable.induct)
  case (reach_new rand env s)
  then show ?case
    using aligned_draw [OF aligned_createParticles] constructor_Inr by blast
next
  case (reach_tick s s')
  then show ?case by (blast intro: aligned_updateParticles)
next
  case (reach_frame s s')
  then show ?case by (blast intro: aligned_draw)
next
  case (reach_count s rand env count s' e)
  then have "s' = fst (createParticles fp rand env (s\<lparr>numParticles := count\<rparr>))"
    by (simp add: setParticleCount_def Let_def)
  then show ?case by (simp add: aligned_createParticles)
qed

lemma constructor_working:
  "\<exists>s. constructor fp rand working = Inr s"
proof -
  let ?e = "\<lparr>numParticles = 0, particles = [], vertices = [], gl_calls = []\<rparr>"
  have "snd (createParticles fp rand working ?e) = None"
    by (simp add: createParticles_error working_def)
  then obtain t where t: "createParticles fp rand working ?e = (t, None)"
    by (metis prod.collapse)
  obtain s where d: "draw fp t = Inr s"
    using draw_result [of fp t] by blast
  have w: "canvas_found working" "initWebGL working = Inr ()" "initShaders working = Inr ()"
    "setupScene working = Inr ()"
    by (simp_all add: working_def initWebGL_def initShaders_def compileShader_def setupScene_def)
  have "constructor fp rand working = Inr s"
    by (simp add: constructor_def w t d)
  then show ?thesis ..
qed

section \<open>Several ticks\<close>

lemma spin_funpow:
  "(spin fp ^^ n) p = p\<lparr>rotation := ((\<lambda>r. rnd fp (r + speed p)) ^^ n) (rotation p)\<rparr>"
  by (induction n) (simp_all add: spin_def)

lemma ticks_result:
  "\<exists>s'. ticks fp n s = Inr s' \<and> particles s' = map (spin fp ^^ n) (particles s) \<and>
        numParticles s' = numParticles s \<and> length (vertices s') = length (vertices s)"
proof (induction n arbitrary: s)
  case 0
  show ?case by simp
next
  case (Suc n)
  obtain vs' where r:
    "updateParticles fp s =
       Inr (s\<lparr>particles := map (spin fp) (particles s), vertices := vs',
               gl_calls := gl_calls s @ [BufferData vs']\<rparr>)"
    "length vs' = length (vertices s)"
    using updateParticles_result [of fp s] by blast
  let ?t = "s\<lparr>particles := map (spin fp) (particles s), vertices := vs',
               gl_calls := gl_calls s @ [BufferData vs']\<rparr>"
  from Suc [of ?t] obtain s' where
    "ticks fp n ?t = Inr s'" "particles s' = map (spin fp ^^ n) (particles ?t)"
    "numParticles s' = numParticles ?t" "length (vertices s') = length (vertices ?t)"
    by blast
  then show ?case
    using r by (simp add: funpow_swap1 comp_def)
qed

lemma ticks_rotation:
  assumes "i < length (particles s)"
  shows "\<exists>s'. ticks fp n s = Inr s' \<and> length (particles s') = length (particles s) \<and>
     position (particles s' ! i) = position (particles s ! i) \<and>
     speed (particles s' ! i) = speed (particles s ! i) \<and>
     radius (particles s' ! i) = radius (particles s ! i) \<and>
     rotation (particles s' ! i) =
       ((\<lambda>r. rnd fp (r + speed (particles s ! i))) ^^ n) (rotation (particles s ! i))"
proof -
  obtain s' where "ticks fp n s = Inr s'" "particles s' = map (spin fp ^^ n) (particles s)"
    using ticks_result [of fp n s] by blast
  then show ?thesis using assms by (simp add: spin_funpow)
qed

section \<open>The second script\<close>

lemma length_draw00Body: "length (draw00Body fp tg ii vs) = length vs"
  by (simp add: draw00Body_def Let_def)

lemma draw00Loop_step:
  "ii < n * 2 \<Longrightarrow> ts \<noteq> [] \<Longrightarrow>
     draw00Loop fp n ts ii vs =
       draw00Loop fp n ts (ii + 2) (draw00Body fp (ts ! (ii mod length ts)) ii vs)"
  by (subst draw00Loop.simps) (simp add: lookup_def Let_def draw00Body_def)

lemma draw00Loop_total:
  "ts \<noteq> [] \<Longrightarrow> \<exists>vs'. draw00Loop fp n ts ii vs = Inr vs' \<and> length vs' = length vs"
proof (induction "n * 2 - ii" arbitrary: ii vs rule: less_induct)
  case less
  show ?case
  proof (cases "ii < n * 2")
    case True
    let ?ws = "draw00Body fp (ts ! (ii mod length ts)) ii vs"
    have "n * 2 - (ii + 2) < n * 2 - ii" using True by simp
    from less.hyps [OF this less.prems, of ?ws] show ?thesis
      by (simp add: draw00Loop_step [OF True less.prems] length_draw00Body)
  next
    case False
    then show ?thesis by (subst draw00Loop.simps) simp
  qed
qed

section \<open>Concrete runs in double arithmetic\<close>

lemma q_rot_a: "rnd64 (1 / 4 * (884279719003555 / 2 ^ 48)) = 884279719003555 / 2 ^ 50"
  unfolding rnd64_def
  by (rule trans [OF round_to_eqI [where k = "- 1" and n = "7074237752028440"]]) simp_all

lemma q_rot_b: "rnd64 (884279719003555 / 2 ^ 50 * 2) = 884279719003555 / 2 ^ 49"
  unfolding rnd64_def
  by (rule trans [OF round_to_eqI [where k = "0" and n = "7074237752028440"]]) simp_all

lemma lit_002: "rnd64 0.02 = 5764607523034235 / 2 ^ 58"
  unfolding rnd64_def
  by (rule trans [OF round_to_eqI [where k = "- 6" and n = "5764607523034235"]]) simp_all

lemma lit_001: "rnd64 0.01 = 5764607523034235 / 2 ^ 59"
  unfolding rnd64_def
  by (rule trans [OF round_to_eqI [where k = "- 7" and n = "5764607523034235"]]) simp_all

lemma lit_01: "rnd64 0.1 = 3602879701896397 / 2 ^ 55"
  unfolding rnd64_def
  by (rule trans [OF round_to_eqI [where k = "- 4" and n = "7205759403792794"]]) simp_all

lemma lit_005: "rnd64 0.05 = 3602879701896397 / 2 ^ 56"
  unfolding rnd64_def
  by (rule trans [OF round_to_eqI [where k = "- 5" and n = "7205759403792794"]]) simp_all

lemma q_speed_a: "rnd64 (1 / 4 * (5764607523034235 / 2 ^ 58)) = 5764607523034235 / 2 ^ 60"
  unfolding rnd64_def
  by (rule trans [OF round_to_eqI [where k = "- 8" and n = "5764607523034235"]]) simp_all

lemma q_speed_b: "rnd64 (5764607523034235 / 2 ^ 60 + 5764607523034235 / 2 ^ 59) = 1080863910568919 / 2 ^ 56"
  unfolding rnd64_def
  by (rule trans [OF round_to_tieI [where k = "- 7" and n = "8646911284551352"]]) simp_all

lemma q_radius_a: "rnd64 (1 / 4 * (3602879701896397 / 2 ^ 55)) = 3602879701896397 / 2 ^ 57"
  unfolding rnd64_def
  by (rule trans [OF round_to_eqI [where k = "- 6" and n = "7205759403792794"]]) simp_all

lemma q_radius_b: "rnd64 (3602879701896397 / 2 ^ 57 + 3602879701896397 / 2 ^ 56) = 1351079888211149 / 2 ^ 54"
  unfolding rnd64_def
  by (rule trans [OF round_to_tieI [where k = "- 4" and n = "5404319552844596"]]) simp_all

lemma q_tick_1: "rnd64 (884279719003555 / 2 ^ 49 + 1080863910568919 / 2 ^ 56) = 7141791746438997 / 2 ^ 52"
  unfolding rnd64_def
  by (rule trans [OF round_to_eqI [where k = "0" and n = "7141791746438997"]]) simp_all

lemma q_tick_2: "rnd64 (7141791746438997 / 2 ^ 52 + 1080863910568919 / 2 ^ 56) = 3604672870424777 / 2 ^ 51"
  unfolding rnd64_def
  by (rule trans [OF round_to_eqI [where k = "0" and n = "7209345740849554"]]) simp_all

lemma q_js_a: "rnd64 (2 * (1080863910568919 / 2 ^ 56)) = 1080863910568919 / 2 ^ 55"
  unfolding rnd64_def
  by (rule trans [OF round_to_eqI [where k = "- 6" and n = "8646911284551352"]]) simp_all

lemma q_js_b: "rnd64 (884279719003555 / 2 ^ 49 + 1080863910568919 / 2 ^ 55) = 7209345740849555 / 2 ^ 52"
  unfolding rnd64_def
  by (rule trans [OF round_to_eqI [where k = "0" and n = "7209345740849555"]]) simp_all

lemma quarter_particle:
  assumes "i < 80000"
  shows "particles quarter_system ! i =
     newParticle ieee (\<lambda>k. 1 / 4) (nat \<lceil>rnd ieee (sqrt 80000)\<rceil>)
       (rnd ieee (2 / real (nat \<lceil>rnd ieee (sqrt 80000)\<rceil>))) i (3 * i)"
  using assms by (simp add: quarter_system_def createParticles_particles)

lemma quarter_rotation: "i < 80000 \<Longrightarrow> rotation (particles quarter_system ! i) = 884279719003555 / 2 ^ 49"
  by (simp only: quarter_particle newParticle_def particle.select_convs ieee_simps q_rot_a q_rot_b)

lemma quarter_speed: "i < 80000 \<Longrightarrow> speed (particles quarter_system ! i) = 1080863910568919 / 2 ^ 56"
  by (simp only: quarter_particle newParticle_def particle.select_convs ieee_simps
      lit_002 lit_001 q_speed_a q_speed_b)

lemma quarter_radius: "i < 80000 \<Longrightarrow> radius (particles quarter_system ! i) = 1351079888211149 / 2 ^ 54"
  by (simp only: quarter_particle newParticle_def particle.select_convs ieee_simps
      lit_01 lit_005 q_radius_a q_radius_b)

lemma quarter_length: "length (particles quarter_system) = 80000"
  by (simp add: quarter_system_def createParticles_length)

lemma rnd64_2825: "rnd64 (565 / 2) = 565 / 2"
  unfolding rnd64_def
  by (rule trans [OF round_to_eqI [where k = "8" and n = "4969792557547520"]]) simp_all

lemma rnd64_283: "rnd64 283 = 283"
  unfolding rnd64_def
  by (rule trans [OF round_to_eqI [where k = "8" and n = "4978588650569728"]]) simp_all

lemma cell_size: "rnd64 (2 / 283) = 4073927578116067 / 2 ^ 59"
  unfolding rnd64_def
  by (rule trans [OF round_to_eqI [where k = "- 8" and n = "8147855156232134"]]) simp_all

lemma q_x1_a: "rnd64 (1 * (4073927578116067 / 2 ^ 59)) = 4073927578116067 / 2 ^ 59"
  unfolding rnd64_def
  by (rule trans [OF round_to_eqI [where k = "- 8" and n = "8147855156232134"]]) simp_all

lemma q_x1_b: "rnd64 (4073927578116067 / 2 ^ 59 - 1) = - (69871438565101 / 2 ^ 46)"
  unfolding rnd64_def
  by (rule trans [OF round_to_eqI [where k = "- 1" and n = "- 8943544136332928"]]) simp_all

lemma grid_width: "nat \<lceil>rnd64 (sqrt 80000)\<rceil> = 283"
proof -
  have "565 / 2 \<le> sqrt 80000" by (rule real_le_rsqrt) (simp add: power2_eq_square)
  then have lo: "565 / 2 \<le> rnd64 (sqrt 80000)"
    using rnd64_mono [of "565 / 2" "sqrt 80000"] by (simp add: rnd64_2825)
  have "sqrt 80000 \<le> 283" by (rule real_le_lsqrt) (simp_all add: power2_eq_square)
  then have hi: "rnd64 (sqrt 80000) \<le> 283"
    using rnd64_mono [of "sqrt 80000" 283] by (simp add: rnd64_283)
  have "\<lceil>rnd64 (sqrt 80000)\<rceil> = 283"
    using lo hi by (simp add: ceiling_eq_iff)
  then show ?thesis by simp
qed

lemma quarter_x1: "x (position (particles quarter_system ! 1)) = - (69871438565101 / 2 ^ 46)"
proof -
  have m: "real (1 mod 283) = 1" by simp
  have "(1::nat) < 80000" by simp
  then show ?thesis
    by (simp only: quarter_particle newParticle_def particle.select_convs position.select_convs
        grid_width ieee_simps of_nat_numeral m cell_size q_x1_a q_x1_b)
qed

lemma funpow_add_const: "((\<lambda>r::real. r + c) ^^ n) r = r + real n * c"
  by (induction n) (simp_all add: algebra_simps)

lemma updateParticles_segment:
  assumes "i < length (particles s)" "length (particles s) * 6 \<le> length (vertices s)"
  shows "\<exists>s'. updateParticles fp s = Inr s' \<and>
      particles s' = map (spin fp) (particles s) \<and>
      vertices s' ! (i * 6) = segment fp (spin fp (particles s ! i)) ! 0 \<and>
      vertices s' ! (i * 6 + 1) = segment fp (spin fp (particles s ! i)) ! 1 \<and>
      vertices s' ! (i * 6 + 2) = segment fp (spin fp (particles s ! i)) ! 2 \<and>
      vertices s' ! (i * 6 + 3) = segment fp (spin fp (particles s ! i)) ! 3 \<and>
      vertices s' ! (i * 6 + 4) = segment fp (spin fp (particles s ! i)) ! 4 \<and>
      vertices s' ! (i * 6 + 5) = segment fp (spin fp (particles s ! i)) ! 5"
proof -
  obtain vs' where r:
    "updateParticles fp s =
       Inr (s\<lparr>particles := map (spin fp) (particles s), vertices := vs',
               gl_calls := gl_calls s @ [BufferData vs']\<rparr>)"
    and nth: "\<forall>j<length (vertices s). vs' ! j =
        (if j < length (particles s) * 6
         then segment fp (spin fp (particles s ! (j div 6))) ! (j mod 6)
         else vertices s ! j)"
    using updateParticles_result [of fp s] by blast
  have e: "vs' ! (i * 6 + k) = segment fp (spin fp (particles s ! i)) ! k" if "k < 6" for k
  proof -
    have "i * 6 + k < length (particles s) * 6" using assms(1) that by simp
    moreover have "(i * 6 + k) div 6 = i" "(i * 6 + k) mod 6 = k" using that by simp_all
    ultimately show ?thesis using nth assms(2) by simp
  qed
  have "vs' ! (i * 6) = segment fp (spin fp (particles s ! i)) ! 0"
    using e [of 0] by simp
  then show ?thesis
    using e [of 1] e [of 2] e [of 3] e [of 4] e [of 5] by (simp add: r)
qed

lemma updateParticles_frame:
  assumes "i < length (particles s)"
  shows "\<exists>s'. updateParticles fp s = Inr s' \<and>
     numParticles s' = numParticles s \<and>
     length (particles s') = length (particles s) \<and>
     position (particles s' ! i) = position (particles s ! i) \<and>
     speed (particles s' ! i) = speed (particles s ! i) \<and>
     radius (particles s' ! i) = radius (particles s ! i) \<and>
     rotation (particles s' ! i) = rnd fp (rotation (particles s ! i) + speed (particles s ! i))"
proof -
  obtain vs' where
    "updateParticles fp s =
       Inr (s\<lparr>particles := map (spin fp) (particles s), vertices := vs',
               gl_calls := gl_calls s @ [BufferData vs']\<rparr>)"
    using updateParticles_result [of fp s] by blast
  then show ?thesis using assms by (simp add: spin_def)
qed

lemma quarter_vertices: "length (vertices quarter_system) = 480000"
  by (simp add: quarter_system_def createParticles_vertices)

lemma fround32_grid:
  assumes "1 / 2 \<le> \<bar>v\<bar>"
  shows "\<exists>n::int. fround32 (rnd64 v) = of_int n / 2 ^ 24"
proof -
  have half: "(2::real) powi (- 1) = 1 / 2" by (simp add: power_int_minus)
  have "2 powi (- 1) \<le> \<bar>v\<bar>" using assms half by simp
  then have "2 powi (- 1) \<le> \<bar>round_to 53 (- 1022) v\<bar>"
    by (rule round_to_abs_ge_pow) simp_all
  then have "\<exists>n::int. round_to 24 (- 126) (round_to 53 (- 1022) v)
      = of_int n * 2 powi (- 1 - int 24 + 1)"
    by (rule round_to_grid) simp_all
  then obtain n :: int where
    n: "round_to 24 (- 126) (round_to 53 (- 1022) v) = of_int n * 2 powi (- 1 - int 24 + 1)" ..
  have "- 1 - int 24 + 1 = - 24" by simp
  moreover have "(2::real) powi (- 24) = 1 / 2 ^ 24" by (simp add: power_int_minus field_simps)
  ultimately have "fround32 (rnd64 v) = of_int n / 2 ^ 24"
    using n by (simp only: fround32_def rnd64_def times_divide_eq_right mult_1_right)
  then show ?thesis ..
qed

lemma midpoint_on_grid:
  assumes "(real_of_int n / 2 ^ 24 + real_of_int m / 2 ^ 24) / 2 = - (real_of_int k / 2 ^ 46)"
  shows "(n + m) * 2 ^ 21 = - k"
proof -
  have "(real_of_int n / 2 ^ 24 + real_of_int m / 2 ^ 24) / 2 * 2 ^ 46
      = - (real_of_int k / 2 ^ 46) * 2 ^ 46"
    using assms by simp
  then have "(real_of_int n + real_of_int m) * 2 ^ 21 = - real_of_int k"
    by simp
  then have "real_of_int ((n + m) * 2 ^ 21) = real_of_int (- k)" by simp
  then show ?thesis by (simp only: of_int_eq_iff)
qed

section \<open>The constant \<open>pi\<close>\<close>

text \<open>\<^verbatim>\<open>Math.PI\<close> lies below \<open>pi\<close>: by Machin's formula and the alternating series of the arctangent.\<close>

lemma arctan_partial_sums:
  fixes t :: real
  assumes "0 \<le> t" "t \<le> 1"
  shows "(\<Sum>i<2 * n. (- 1) ^ i * (1 / real (i * 2 + 1) * t ^ (i * 2 + 1))) \<le> arctan t"
    and "arctan t \<le> (\<Sum>i<2 * n + 1. (- 1) ^ i * (1 / real (i * 2 + 1) * t ^ (i * 2 + 1)))"
proof -
  let ?a = "\<lambda>n. 1 / real (n * 2 + 1) * t ^ (n * 2 + 1)"
  have abs: "\<bar>t\<bar> \<le> 1" using assms by simp
  have zero: "?a \<longlonglongrightarrow> 0" using abs by (rule zeroseq_arctan_series)
  have pos: "0 \<le> ?a n" for n using assms by simp
  have mono: "?a (Suc n) \<le> ?a n" for n
  proof -
    have "t ^ (Suc n * 2 + 1) \<le> t ^ (n * 2 + 1)"
      using assms by (intro power_decreasing) simp_all
    moreover have "1 / real (Suc n * 2 + 1) \<le> 1 / real (n * 2 + 1)"
      by (intro divide_left_mono) simp_all
    ultimately show ?thesis
      using assms by (intro mult_mono) simp_all
  qed
  have series: "arctan t = (\<Sum>k. (- 1) ^ k * ?a k)"
    using abs by (rule arctan_series)
  show "(\<Sum>i<2 * n. (- 1) ^ i * ?a i) \<le> arctan t"
    unfolding series by (rule summable_Leibniz'(2) [OF zero pos mono])
  show "arctan t \<le> (\<Sum>i<2 * n + 1. (- 1) ^ i * ?a i)"
    unfolding series by (rule summable_Leibniz'(4) [OF zero pos mono])
qed

lemma arctan_fifth_lower:
  "(\<Sum>i<12. (- 1) ^ i * (1 / real (i * 2 + 1) * (1 / 5) ^ (i * 2 + 1))) \<le> arctan (1 / 5)"
  using arctan_partial_sums(1) [of "1 / 5" 6] by simp

lemma arctan_239_upper:
  "arctan (1 / 239) \<le> (\<Sum>i<3. (- 1) ^ i * (1 / real (i * 2 + 1) * (1 / 239) ^ (i * 2 + 1)))"
  using arctan_partial_sums(2) [of "1 / 239" 1] by simp

lemma Math_PI_less_pi: "884279719003555 / 2 ^ 48 < pi"
proof -
  have "pi = 16 * arctan (1 / 5) - 4 * arctan (1 / 239)"
    using machin by simp
  moreover have "884279719003555 / 2 ^ 48 <
      16 * (\<Sum>i<12. (- 1) ^ i * (1 / real (i * 2 + 1) * (1 / 5) ^ (i * 2 + 1)))
      - 4 * (\<Sum>i<3. (- 1) ^ i * (1 / real (i * 2 + 1) * (1 / 239) ^ (i * 2 + 1)))"
    by (simp add: lessThan_nat_numeral lessThan_Suc power_divide)
  ultimately show ?thesis
    using arctan_fifth_lower arctan_239_upper by linarith
qed

section \<open>The ranges of the random parameters\<close>

lemma rnd64_PI: "rnd64 (884279719003555 / 2 ^ 48) = 884279719003555 / 2 ^ 48"
  unfolding rnd64_def
  by (rule trans [OF round_to_eqI [where k = "1" and n = "7074237752028440"]]) simp_all

lemma rnd64_2PI: "rnd64 (884279719003555 / 2 ^ 48 * 2) = 884279719003555 / 2 ^ 47"
  unfolding rnd64_def
  by (rule trans [OF round_to_eqI [where k = "2" and n = "7074237752028440"]]) simp_all

lemma max_speed_a: "rnd64 ((9007199254740991 / 2 ^ 53) * (5764607523034235 / 2 ^ 58)) = 2882303761517117 / 2 ^ 57"
  unfolding rnd64_def
  by (rule trans [OF round_to_eqI [where k = "- 6" and n = "5764607523034234"]]) simp_all

lemma max_speed_b: "rnd64 (2882303761517117 / 2 ^ 57 + 5764607523034235 / 2 ^ 59) = 1080863910568919 / 2 ^ 55"
  unfolding rnd64_def
  by (rule trans [OF round_to_tieI [where k = "- 6" and n = "8646911284551352"]]) simp_all

lemma max_radius_a: "rnd64 ((9007199254740991 / 2 ^ 53) * (3602879701896397 / 2 ^ 55)) = 7205759403792793 / 2 ^ 56"
  unfolding rnd64_def
  by (rule trans [OF round_to_eqI [where k = "- 4" and n = "7205759403792793"]]) simp_all

lemma max_radius_b: "rnd64 (7205759403792793 / 2 ^ 56 + 3602879701896397 / 2 ^ 56) = 5404319552844595 / 2 ^ 55"
  unfolding rnd64_def
  by (rule trans [OF round_to_eqI [where k = "- 3" and n = "5404319552844595"]]) simp_all

lemma rnd64_lit_001: "rnd64 (5764607523034235 / 2 ^ 59) = 5764607523034235 / 2 ^ 59"
  unfolding rnd64_def
  by (rule trans [OF round_to_eqI [where k = "- 7" and n = "5764607523034235"]]) simp_all

lemma rnd64_lit_005: "rnd64 (3602879701896397 / 2 ^ 56) = 3602879701896397 / 2 ^ 56"
  unfolding rnd64_def
  by (rule trans [OF round_to_eqI [where k = "- 5" and n = "7205759403792794"]]) simp_all

lemma rnd64_quarter: "rnd64 (1 / 4) = 1 / 4"
  unfolding rnd64_def
  by (rule trans [OF round_to_eqI [where k = "- 2" and n = "4503599627370496"]]) simp_all

lemma double_below_one:
  assumes "rnd64 u = u" "u < 1"
  shows "u \<le> 9007199254740991 / 2 ^ 53"
proof (cases "u < 1 / 2")
  case True
  then show ?thesis by simp
next
  case False
  then have lo: "2 powi (- 1) \<le> \<bar>u\<bar>" by (simp add: power_int_minus)
  have hi: "\<bar>u\<bar> < 2 powi (- 1 + 1)" using assms(2) False by simp
  define N where "N = round_even (u / 2 powi (- 1 - int 53 + 1))"
  have "round_to 53 (- 1022) u = of_int N * 2 powi (- 1 - int 53 + 1)"
    unfolding N_def by (rule round_to_eval [OF lo hi]) simp
  moreover have "(2::real) powi (- 1 - int 53 + 1) = 1 / 2 ^ 53"
    by (simp add: power_int_minus field_simps)
  ultimately have u: "u = of_int N / 2 ^ 53"
    using assms(1) by (simp add: rnd64_def)
  then have "real_of_int N < 2 ^ 53" using assms(2) by (simp add: field_simps)
  then have "real_of_int N < real_of_int (2 ^ 53)" by simp
  then have "N < 2 ^ 53" by (simp only: of_int_less_iff)
  then have "N \<le> 9007199254740991" by simp
  then have "real_of_int N \<le> 9007199254740991" by (metis of_int_le_iff of_int_numeral)
  then show ?thesis unfolding u by (simp add: divide_right_mono)
qed

lemma ieee_rotation_range:
  assumes "0 \<le> u" "u < 1"
  shows "0 \<le> rnd64 (rnd64 (u * (884279719003555 / 2 ^ 48)) * 2)"
    and "rnd64 (rnd64 (u * (884279719003555 / 2 ^ 48)) * 2) < 2 * pi"
proof -
  have "0 \<le> rnd64 (u * (884279719003555 / 2 ^ 48))"
    unfolding rnd64_def using assms(1) by (intro round_to_nonneg) simp
  then show "0 \<le> rnd64 (rnd64 (u * (884279719003555 / 2 ^ 48)) * 2)"
    unfolding rnd64_def [of "_ * 2"] by (intro round_to_nonneg) simp
  have "u * (884279719003555 / 2 ^ 48) \<le> 884279719003555 / 2 ^ 48"
    using assms(2) by simp
  then have "rnd64 (u * (884279719003555 / 2 ^ 48)) \<le> 884279719003555 / 2 ^ 48"
    using rnd64_mono [of "u * (884279719003555 / 2 ^ 48)" "884279719003555 / 2 ^ 48"]
    by (simp only: rnd64_PI)
  then have "rnd64 (u * (884279719003555 / 2 ^ 48)) * 2 \<le> 884279719003555 / 2 ^ 48 * 2"
    by simp
  then have "rnd64 (rnd64 (u * (884279719003555 / 2 ^ 48)) * 2) \<le> 884279719003555 / 2 ^ 47"
    using rnd64_mono [of "rnd64 (u * (884279719003555 / 2 ^ 48)) * 2" "884279719003555 / 2 ^ 48 * 2"]
    by (simp only: rnd64_2PI)
  moreover have "884279719003555 / 2 ^ 47 < 2 * pi"
    using Math_PI_less_pi by simp
  ultimately show "rnd64 (rnd64 (u * (884279719003555 / 2 ^ 48)) * 2) < 2 * pi"
    by linarith
qed

lemma ieee_affine_range:
  assumes "0 \<le> u" "u \<le> 9007199254740991 / 2 ^ 53" "0 \<le> a"
    and "rnd64 b = b"
    and "rnd64 (9007199254740991 / 2 ^ 53 * a) = c"
    and "rnd64 (c + b) = d"
  shows "b \<le> rnd64 (rnd64 (u * a) + b)" and "rnd64 (rnd64 (u * a) + b) \<le> d"
proof -
  have "0 \<le> rnd64 (u * a)"
    unfolding rnd64_def using assms(1,3) by (intro round_to_nonneg) simp
  then have "rnd64 b \<le> rnd64 (rnd64 (u * a) + b)" by (intro rnd64_mono) simp
  then show "b \<le> rnd64 (rnd64 (u * a) + b)" using assms(4) by simp
  have "u * a \<le> 9007199254740991 / 2 ^ 53 * a"
    using assms(2,3) by (rule mult_right_mono)
  then have "rnd64 (u * a) \<le> c"
    using rnd64_mono [of "u * a" "9007199254740991 / 2 ^ 53 * a"] assms(5) by simp
  then have "rnd64 (rnd64 (u * a) + b) \<le> rnd64 (c + b)" by (intro rnd64_mono) simp
  then show "rnd64 (rnd64 (u * a) + b) \<le> d" using assms(6) by simp
qed

lemma created_particle:
  assumes "i < length (particles (fst (createParticles fp rand env s)))"
  shows "particles (fst (createParticles fp rand env s)) ! i =
           newParticle fp rand (nat \<lceil>rnd fp (sqrt 80000)\<rceil>)
             (rnd fp (2 / real (nat \<lceil>rnd fp (sqrt 80000)\<rceil>))) i (3 * i)"
  using assms by (simp add: createParticles_particles)

lemma exact_ranges:
  fixes u v w :: real
  assumes "0 \<le> u" "u < 1" "0 \<le> v" "v < 1" "0 \<le> w" "w < 1"
  shows "0 \<le> u * pi * 2 \<and> u * pi * 2 < 2 * pi \<and>
         1 / 100 \<le> v * (2 / 100) + 1 / 100 \<and> v * (2 / 100) + 1 / 100 < 3 / 100 \<and>
         5 / 100 \<le> w * (1 / 10) + 5 / 100 \<and> w * (1 / 10) + 5 / 100 < 15 / 100"
  using assms by simp

lemma ieee_ranges:
  assumes "0 \<le> u" "u < 1" "0 \<le> v" "v < 1" "rnd64 v = v" "0 \<le> w" "w < 1" "rnd64 w = w"
  shows "0 \<le> rnd64 (rnd64 (u * (884279719003555 / 2 ^ 48)) * 2) \<and>
         rnd64 (rnd64 (u * (884279719003555 / 2 ^ 48)) * 2) < 2 * pi \<and>
         1 / 100 \<le> rnd64 (rnd64 (v * rnd64 0.02) + rnd64 0.01) \<and>
         rnd64 (rnd64 (v * rnd64 0.02) + rnd64 0.01) < 3 / 100 \<and>
         5 / 100 \<le> rnd64 (rnd64 (w * rnd64 0.1) + rnd64 0.05) \<and>
         rnd64 (rnd64 (w * rnd64 0.1) + rnd64 0.05) < 15 / 100"
proof -
  note rot = ieee_rotation_range [OF assms(1,2)]
  have v: "v \<le> 9007199254740991 / 2 ^ 53" using assms(4,5) by (intro double_below_one)
  have w: "w \<le> 9007199254740991 / 2 ^ 53" using assms(7,8) by (intro double_below_one)
  have sp: "5764607523034235 / 2 ^ 59 \<le> rnd64 (rnd64 (v * (5764607523034235 / 2 ^ 58)) + 5764607523034235 / 2 ^ 59)"
    "rnd64 (rnd64 (v * (5764607523034235 / 2 ^ 58)) + 5764607523034235 / 2 ^ 59) \<le> 1080863910568919 / 2 ^ 55"
    by (rule ieee_affine_range [OF assms(3) v _ rnd64_lit_001 max_speed_a max_speed_b], simp)+
  have ra: "3602879701896397 / 2 ^ 56 \<le> rnd64 (rnd64 (w * (3602879701896397 / 2 ^ 55)) + 3602879701896397 / 2 ^ 56)"
    "rnd64 (rnd64 (w * (3602879701896397 / 2 ^ 55)) + 3602879701896397 / 2 ^ 56) \<le> 5404319552844595 / 2 ^ 55"
    by (rule ieee_affine_range [OF assms(6) w _ rnd64_lit_005 max_radius_a max_radius_b], simp)+
  have "(1::real) / 100 \<le> 5764607523034235 / 2 ^ 59" "(1080863910568919::real) / 2 ^ 55 < 3 / 100"
    "(5::real) / 100 \<le> 3602879701896397 / 2 ^ 56" "(5404319552844595::real) / 2 ^ 55 < 15 / 100"
    by simp_all
  then show ?thesis
    using rot sp ra unfolding lit_002 lit_001 lit_01 lit_005 by (intro conjI) linarith+
qed

section \<open>The draw calls of a frame\<close>

lemma draw00_total:
  "\<exists>vs. draw00 fp (sc\<lparr>targetArr := tg # ts\<rparr>) =
       Inr (sc\<lparr>targetArr :=
                 map (\<lambda>t. t\<lparr>target_rotate := rnd fp (target_rotate t + rotate_speed t)\<rparr>) (tg # ts),
               scene_vertices := vs\<rparr>) \<and>
     length vs = length (scene_vertices sc)"
proof -
  let ?ts = "map (\<lambda>t. t\<lparr>target_rotate := rnd fp (target_rotate t + rotate_speed t)\<rparr>) (tg # ts)"
  have "?ts \<noteq> []" by simp
  then obtain vs where "draw00Loop fp (numLines sc) ?ts 0 (scene_vertices sc) = Inr vs"
    "length vs = length (scene_vertices sc)"
    using draw00Loop_total [of ?ts fp "numLines sc" 0 "scene_vertices sc"] by blast
  then show ?thesis
    by (intro exI [of _ vs]) (simp add: draw00_def Let_def)
qed

lemma draw_one_call:
  assumes "reachable fp s"
  shows "\<exists>s'. draw fp s = Inr s' \<and>
     gl_calls s' = gl_calls s @
       [Clear, BufferData (vertices s'), DrawArrays LINES 0 (length (particles s') * 2), Flush]"
proof -
  have "numParticles s = length (particles s)"
    using aligned_reachable [OF assms] by (simp add: aligned_def)
  then show ?thesis
    using draw_result [of fp s] by auto
qed

section \<open>Rounding errors of a tick\<close>

text \<open>Below \<open>2 ^ 46\<close> the doubles are at most \<open>2 ^ -7\<close> apart, so adding at least 1/128 to one of them reaches the next.\<close>

lemma rnd64_strict_increase:
  assumes dbl: "rnd64 r = r" and r0: "0 \<le> r" and r46: "r < 2 ^ 46" and s: "1 / 128 \<le> s"
  shows "r < rnd64 (r + s)"
proof (cases "r = 0")
  case True
  have "rnd64 (2 powi (- 7)) = 2 powi (- 7)"
    unfolding rnd64_def by (rule round_to_pow) simp_all
  moreover have "(2::real) powi (- 7) = 1 / 128" by (simp add: power_int_minus)
  ultimately have "rnd64 (1 / 128) = 1 / 128" by simp
  moreover have "rnd64 (1 / 128) \<le> rnd64 (r + s)" using True s by (intro rnd64_mono) simp
  ultimately show ?thesis using True by simp
next
  case False
  then have rpos: "0 < r" using r0 by simp
  let ?v = "r + s"
  have vpos: "0 < ?v" using rpos s by simp
  let ?kr = "max \<lfloor>log 2 \<bar>r\<bar>\<rfloor> (- 1022)" and ?kv = "max \<lfloor>log 2 \<bar>?v\<bar>\<rfloor> (- 1022)"
  have er: "ulp_exp 53 (- 1022) r = ?kr - 52" and ev: "ulp_exp 53 (- 1022) ?v = ?kv - 52"
    by (simp_all add: ulp_exp_def)
  have "log 2 \<bar>r\<bar> \<le> log 2 \<bar>?v\<bar>" using rpos s by simp
  then have "\<lfloor>log 2 \<bar>r\<bar>\<rfloor> \<le> \<lfloor>log 2 \<bar>?v\<bar>\<rfloor>" by (rule floor_mono)
  then have k: "?kr \<le> ?kv" by simp
  have rlt: "r < 2 powi (?kr + 1)"
  proof -
    have "\<bar>r\<bar> < 2 powi (\<lfloor>log 2 \<bar>r\<bar>\<rfloor> + 1)" using binade(2) [of r] False by simp
    also have "\<dots> \<le> 2 powi (?kr + 1)" by (rule power_int_increasing) simp_all
    finally show ?thesis using rpos by simp
  qed
  show ?thesis
  proof (cases "?kr = ?kv")
    case True
    have "\<bar>r\<bar> < 2 powi 46" using r46 rpos by simp
    then have "log 2 \<bar>r\<bar> < 46"
      using rpos by (simp add: log_less_iff powr_real_of_int' [of 2 46, simplified])
    then have "\<lfloor>log 2 \<bar>r\<bar>\<rfloor> < 46" by (simp add: floor_less_iff)
    then have kr: "?kr \<le> 45" by simp
    let ?e = "?kr - 52"
    let ?q = "(2::real) powi ?e"
    define N where "N = round_even (r / ?q)"
    have rN: "r = of_int N * ?q"
      using dbl False unfolding rnd64_def round_to_def er N_def by simp
    have "(2::real) powi (- 7) = of_int (2 ^ nat (- 7 - ?e)) * ?q"
      by (rule pow_on_grid) (use kr in simp)
    then have g: "r + 1 / 128 = of_int (N + 2 ^ nat (- 7 - ?e)) * ?q"
      using rN by (simp add: power_int_minus algebra_simps)
    have "of_int (N + 2 ^ nat (- 7 - ?e)) * 2 powi ulp_exp 53 (- 1022) ?v \<le> ?v"
      unfolding ev True [symmetric] using g s by simp
    then have "of_int (N + 2 ^ nat (- 7 - ?e)) * 2 powi ulp_exp 53 (- 1022) ?v
        \<le> round_to 53 (- 1022) ?v"
      using vpos by (intro round_to_ge_grid) simp_all
    then have "r + 1 / 128 \<le> rnd64 ?v"
      unfolding ev True [symmetric] rnd64_def using g by simp
    then show ?thesis by simp
  next
    case False
    with k have lt: "?kr + 1 \<le> ?kv" by linarith
    then have kv: "?kv = \<lfloor>log 2 \<bar>?v\<bar>\<rfloor>" by linarith
    have "2 powi ?kv \<le> \<bar>?v\<bar>" using binade(1) [of ?v] vpos kv by simp
    then have "2 powi ?kv \<le> ?v" using vpos by simp
    then have "2 powi ?kv \<le> round_to 53 (- 1022) ?v"
      using vpos by (intro round_to_ge_pow) (simp_all add: ev)
    moreover have "(2::real) powi (?kr + 1) \<le> 2 powi ?kv"
      using lt by (intro power_int_increasing) simp_all
    ultimately show ?thesis using rlt by (simp add: rnd64_def)
  qed
qed

text \<open>Below \<open>2 ^ k\<close> rounding errs by at most half a unit in the last place of the binade below \<open>2 ^ k\<close>.\<close>

lemma round_to_error_below:
  assumes "\<bar>v\<bar> < 2 powi k" "emin \<le> k - 1"
  shows "\<bar>round_to p emin v - v\<bar> \<le> 2 powi (k - int p) / 2"
proof (cases "v = 0")
  case True
  then show ?thesis by simp
next
  case False
  then have pos: "0 < \<bar>v\<bar>" by simp
  have "log 2 \<bar>v\<bar> < real_of_int k"
    using assms(1) pos powr_real_of_int' [of 2 k] by (simp add: log_less_iff)
  then have "\<lfloor>log 2 \<bar>v\<bar>\<rfloor> < k" by (simp add: floor_less_iff)
  then have "ulp_exp p emin v \<le> k - int p" using assms(2) by (simp add: ulp_exp_def)
  then have "(2::real) powi ulp_exp p emin v \<le> 2 powi (k - int p)"
    by (intro power_int_increasing) simp_all
  then show ?thesis using round_to_error [of p emin v] by linarith
qed

text \<open>The error of \<open>n\<close> rounded additions of the speed, as long as the sum stays below \<open>2 ^ k\<close>.\<close>

lemma rnd64_drift:
  assumes "0 \<le> r" "0 \<le> s" "- 1021 \<le> k"
    and "r + real n * (s + 2 powi (k - 54)) \<le> 2 powi k"
  shows "\<bar>((\<lambda>v. rnd64 (v + s)) ^^ n) r - (r + real n * s)\<bar> \<le> real n * 2 powi (k - 54)"
    and "0 \<le> ((\<lambda>v. rnd64 (v + s)) ^^ n) r"
  using assms(4)
proof (induction n)
  case 0
  {
    case 1
    show ?case by simp
  next
    case 2
    show ?case using assms(1) by simp
  }
next
  case (Suc n)
  let ?eps = "(2::real) powi (k - 54)"
  let ?rn = "((\<lambda>v. rnd64 (v + s)) ^^ n) r"
  have eps: "0 < ?eps" by simp
  {
    case 1
    have b: "r + real n * (s + ?eps) \<le> 2 powi k"
    proof -
      have "r + real n * (s + ?eps) \<le> r + real (Suc n) * (s + ?eps)"
        using assms(2) eps by (simp add: algebra_simps)
      then show ?thesis using 1 by linarith
    qed
    note ih = Suc.IH(1) [OF b] Suc.IH(2) [OF b]
    have "?rn + s \<le> r + real n * s + real n * ?eps + s" using ih(1) by linarith
    also have "\<dots> = r + real (Suc n) * (s + ?eps) - ?eps" by (simp add: algebra_simps)
    also have "\<dots> < 2 powi k" using 1 eps by linarith
    finally have "\<bar>?rn + s\<bar> < 2 powi k" using ih(2) assms(2) by simp
    then have "\<bar>round_to 53 (- 1022) (?rn + s) - (?rn + s)\<bar> \<le> 2 powi (k - int 53) / 2"
      by (rule round_to_error_below) (use assms(3) in simp)
    moreover have "(2::real) powi (k - int 53) / 2 = ?eps"
    proof -
      have "k - int 53 = (k - 54) + 1" by simp
      then have "(2::real) powi (k - int 53) = 2 powi (k - 54) * 2 powi 1"
        using power_int_add [of "2::real" "k - 54" 1] by simp
      then show ?thesis by simp
    qed
    ultimately have "\<bar>rnd64 (?rn + s) - (?rn + s)\<bar> \<le> ?eps" by (simp add: rnd64_def)
    then have "\<bar>rnd64 (?rn + s) - (r + real (Suc n) * s)\<bar> \<le> ?eps + real n * ?eps"
      using ih(1) by (simp add: algebra_simps)
    then show ?case by (simp add: algebra_simps)
  next
    case 2
    have b: "r + real n * (s + ?eps) \<le> 2 powi k"
    proof -
      have "r + real n * (s + ?eps) \<le> r + real (Suc n) * (s + ?eps)"
        using assms(2) eps by (simp add: algebra_simps)
      then show ?thesis using 2 by linarith
    qed
    have "0 \<le> ?rn + s" using Suc.IH(2) [OF b] assms(2) by simp
    then show ?case unfolding rnd64_def funpow.simps o_apply by (rule round_to_nonneg)
  }
qed

text \<open>Computing an endpoint in double precision and storing it in single precision.\<close>

lemma store_error:
  assumes "\<bar>v\<bar> < 2"
  shows "\<bar>fround32 (rnd64 v) - v\<bar> \<le> 1 / 2 ^ 24 + 1 / 2 ^ 53"
proof -
  have v1: "\<bar>v\<bar> < 2 powi 1" using assms by simp
  have "\<bar>round_to 53 (- 1022) v - v\<bar> \<le> 2 powi (1 - int 53) / 2"
    using v1 by (rule round_to_error_below) simp
  then have e1: "\<bar>rnd64 v - v\<bar> \<le> 1 / 2 ^ 53"
    by (simp add: rnd64_def power_int_minus field_simps)
  have "\<bar>v\<bar> \<le> 2 powi 1" using v1 by simp
  then have w: "\<bar>rnd64 v\<bar> \<le> 2 powi 1"
    unfolding rnd64_def by (rule round_to_abs_le_pow) simp_all
  have e2: "\<bar>fround32 (rnd64 v) - rnd64 v\<bar> \<le> 1 / 2 ^ 24"
  proof (cases "\<bar>rnd64 v\<bar> < 2 powi 1")
    case True
    then have "\<bar>round_to 24 (- 126) (rnd64 v) - rnd64 v\<bar> \<le> 2 powi (1 - int 24) / 2"
      by (rule round_to_error_below) simp
    then show ?thesis by (simp add: fround32_def power_int_minus field_simps)
  next
    case False
    with w have "\<bar>rnd64 v\<bar> = 2 powi 1" by simp
    then consider "rnd64 v = 2 powi 1" | "rnd64 v = - (2 powi 1)" by (auto simp: abs_if split: if_splits)
    then have "fround32 (rnd64 v) = rnd64 v"
    proof cases
      case 1
      show ?thesis unfolding 1 fround32_def by (rule round_to_pow) simp_all
    next
      case 2
      have "round_to 24 (- 126) (2 powi 1) = 2 powi 1" by (rule round_to_pow) simp_all
      then show ?thesis unfolding 2 fround32_def by (simp only: round_to_uminus)
    qed
    then show ?thesis by simp
  qed
  show ?thesis using e1 e2 by linarith
qed

lemma rnd64_abs_le_one: "\<bar>t\<bar> \<le> 1 \<Longrightarrow> \<bar>rnd64 t\<bar> \<le> 1"
  using round_to_abs_le_pow [of t 0 "- 1022" 53] by (simp add: rnd64_def)

lemma offset_bound:
  assumes "\<bar>t\<bar> \<le> 1" "\<bar>r\<bar> \<le> 1 / 2"
  shows "\<bar>rnd64 (rnd64 t * r)\<bar> \<le> 1 / 2"
proof -
  have "\<bar>rnd64 t * r\<bar> \<le> 1 * (1 / 2)"
    unfolding abs_mult using rnd64_abs_le_one [OF assms(1)] assms(2) by (intro mult_mono) simp_all
  then have "\<bar>rnd64 t * r\<bar> \<le> 2 powi (- 1)" by (simp add: power_int_minus)
  then have "\<bar>round_to 53 (- 1022) (rnd64 t * r)\<bar> \<le> 2 powi (- 1)"
    by (rule round_to_abs_le_pow) simp_all
  then show ?thesis by (simp add: rnd64_def power_int_minus)
qed

lemma midpoint_bound:
  fixes a c e p q :: real
  assumes "\<bar>p - (a + c)\<bar> \<le> e" "\<bar>q - (a - c)\<bar> \<le> e"
  shows "\<bar>(p + q) / 2 - a\<bar> \<le> e"
proof -
  have "p - (a + c) \<le> e" "- e \<le> p - (a + c)" "q - (a - c) \<le> e" "- e \<le> q - (a - c)"
    using assms by (simp_all add: abs_le_iff)
  then have "(p + q) / 2 - a \<le> e" "- e \<le> (p + q) / 2 - a"
    by (simp_all add: field_simps)
  then show ?thesis by (simp add: abs_le_iff)
qed

text \<open>The midpoint of the two stored endpoints, for one coordinate.\<close>

lemma ieee_midpoint:
  assumes "\<bar>a\<bar> \<le> 1" "\<bar>t\<bar> \<le> 1" "\<bar>r\<bar> \<le> 1 / 2"
  shows "\<bar>(fround32 (rnd64 (a + rnd64 (rnd64 t * r))) + fround32 (rnd64 (a - rnd64 (rnd64 t * r)))) / 2 - a\<bar>
           \<le> 1 / 2 ^ 24 + 1 / 2 ^ 53"
proof -
  let ?c = "rnd64 (rnd64 t * r)"
  have c: "\<bar>?c\<bar> \<le> 1 / 2" by (rule offset_bound [OF assms(2,3)])
  have "\<bar>a + ?c\<bar> < 2" "\<bar>a - ?c\<bar> < 2" using assms(1) c by linarith+
  then have "\<bar>fround32 (rnd64 (a + ?c)) - (a + ?c)\<bar> \<le> 1 / 2 ^ 24 + 1 / 2 ^ 53"
    "\<bar>fround32 (rnd64 (a - ?c)) - (a - ?c)\<bar> \<le> 1 / 2 ^ 24 + 1 / 2 ^ 53"
    by (simp_all only: store_error)
  then show ?thesis by (rule midpoint_bound)
qed

lemma rnd64_q_rot: "rnd64 (884279719003555 / 2 ^ 49) = 884279719003555 / 2 ^ 49"
  unfolding rnd64_def
  by (rule trans [OF round_to_eqI [where k = 0 and n = 7074237752028440]]) simp_all

section \<open>The rotation in the long run\<close>

lemma rnd64_cap: "rnd64 (2 ^ 48 + 3 / 100) = 2 ^ 48"
  unfolding rnd64_def
  by (rule trans [OF round_to_eqI [where k = 48 and n = "2 ^ 52"]]) simp_all

text \<open>A rotation between 1 and \<open>2 ^ 48\<close> stays there when a speed of at most 0.03 is added, and is a multiple of \<open>2 ^ -52\<close>.\<close>

lemma rnd64_step_range:
  assumes "1 \<le> r" "r \<le> 2 ^ 48" "0 \<le> s" "s \<le> 3 / 100"
  shows "1 \<le> rnd64 (r + s)" "rnd64 (r + s) \<le> 2 ^ 48"
    "\<exists>m::int. rnd64 (r + s) = of_int m / 2 ^ 52"
proof -
  have v: "2 powi 0 \<le> \<bar>r + s\<bar>" using assms by simp
  have "2 powi 0 \<le> \<bar>rnd64 (r + s)\<bar>"
    unfolding rnd64_def using v by (rule round_to_abs_ge_pow) simp_all
  moreover have "0 \<le> rnd64 (r + s)"
    unfolding rnd64_def using assms by (intro round_to_nonneg) simp
  ultimately show "1 \<le> rnd64 (r + s)" by simp
  have "rnd64 (r + s) \<le> rnd64 (2 ^ 48 + 3 / 100)"
    using assms by (intro rnd64_mono) simp
  then show "rnd64 (r + s) \<le> 2 ^ 48" by (simp only: rnd64_cap)
  obtain m :: int where "rnd64 (r + s) = of_int m * 2 powi (0 - int 53 + 1)"
    unfolding rnd64_def using round_to_grid [OF v, of "- 1022" 53] by auto
  then have "rnd64 (r + s) = of_int m / 2 ^ 52"
    by (simp add: power_int_minus field_simps)
  then show "\<exists>m::int. rnd64 (r + s) = of_int m / 2 ^ 52" by blast
qed

text \<open>So the rotation cannot grow at every tick: it would pass \<open>2 ^ 48\<close> after \<open>2 ^ 100\<close> of them.\<close>

lemma rotation_stalls:
  fixes r s :: real and m :: int
  assumes r: "1 \<le> r" "r \<le> 2 ^ 48" "r = of_int m / 2 ^ 52" and s: "0 \<le> s" "s \<le> 3 / 100"
  shows "\<exists>n. \<not> ((\<lambda>v. rnd64 (v + s)) ^^ n) r < ((\<lambda>v. rnd64 (v + s)) ^^ Suc n) r"
proof (rule ccontr)
  define a where "a n = ((\<lambda>v. rnd64 (v + s)) ^^ n) r" for n
  have a0: "a 0 = r" and aS: "a (Suc n) = rnd64 (a n + s)" for n
    by (simp_all add: a_def)
  assume "\<nexists>n. \<not> ((\<lambda>v. rnd64 (v + s)) ^^ n) r < ((\<lambda>v. rnd64 (v + s)) ^^ Suc n) r"
  then have up: "a n < a (Suc n)" for n
    unfolding a_def by blast
  have inv: "1 \<le> a n \<and> a n \<le> 2 ^ 48 \<and> (\<exists>k::int. a n = of_int k / 2 ^ 52)" for n
  proof (induction n)
    case 0
    show ?case unfolding a0 using r by blast
  next
    case (Suc n)
    then have b: "1 \<le> a n" "a n \<le> 2 ^ 48" by simp_all
    show ?case unfolding aS
      using rnd64_step_range [OF b s] by blast
  qed
  have step: "a n + 1 / 2 ^ 52 \<le> a (Suc n)" for n
  proof -
    obtain k :: int where k: "a n = of_int k / 2 ^ 52" using inv [of n] by blast
    obtain l :: int where l: "a (Suc n) = of_int l / 2 ^ 52" using inv [of "Suc n"] by blast
    have "real_of_int k / 2 ^ 52 < real_of_int l / 2 ^ 52"
      using up [of n] unfolding k l .
    then have "real_of_int k < real_of_int l" by (simp add: divide_less_cancel)
    then have "k + 1 \<le> l" by simp
    then have "real_of_int (k + 1) \<le> real_of_int l" by (simp only: of_int_le_iff)
    then have "real_of_int (k + 1) / 2 ^ 52 \<le> real_of_int l / 2 ^ 52"
      by (simp add: divide_le_cancel)
    then show ?thesis unfolding k l by (simp add: add_divide_distrib)
  qed
  have grow: "r + real n / 2 ^ 52 \<le> a n" for n
  proof (induction n)
    case 0
    show ?case by (simp add: a0)
  next
    case (Suc n)
    have "r + real (Suc n) / 2 ^ 52 = (r + real n / 2 ^ 52) + 1 / 2 ^ 52"
      by (simp add: add_divide_distrib)
    also have "\<dots> \<le> a n + 1 / 2 ^ 52" using Suc by simp
    also have "\<dots> \<le> a (Suc n)" by (rule step)
    finally show ?case .
  qed
  have "r + real (2 ^ 100 :: nat) / 2 ^ 52 \<le> a (2 ^ 100)" by (rule grow)
  moreover have "a (2 ^ 100) \<le> 2 ^ 48" using inv [of "2 ^ 100"] by blast
  moreover have "real (2 ^ 100 :: nat) / 2 ^ 52 = 2 ^ 48" by simp
  ultimately show False using r(1) by linarith
qed

text \<open>Ticks lead from reachable states to reachable states.\<close>

lemma reachable_ticks:
  "reachable fp s \<Longrightarrow> ticks fp n s = Inr s' \<Longrightarrow> reachable fp s'"
proof (induction n arbitrary: s)
  case 0
  then show ?case by simp
next
  case (Suc n)
  obtain t where t: "updateParticles fp s = Inr t"
    using updateParticles_result [of fp s] by blast
  then have "reachable fp t" using Suc.prems(1) by (rule reach_tick [rotated])
  moreover have "ticks fp n t = Inr s'" using Suc.prems(2) t by simp
  ultimately show ?case by (rule Suc.IH)
qed

section \<open>Claims\<close>

text \<open>
  C1. For every particle, one tick first adds the particle's speed to its rotation, then
  computes \<open>cos = cos(rotation) * radius\<close> and \<open>sin = sin(rotation) * radius\<close> from the new
  rotation, and stores the two endpoints \<open>(position.x + cos, position.y + sin, 0)\<close> and
  \<open>(position.x - cos, position.y - sin, 0)\<close> in the six buffer entries of the particle.
  The sums, differences and products are the program's own (each rounded as the
  arithmetic rounds it), and a buffer entry holds the single-precision conversion of the
  number stored in it. This holds in every arithmetic.
\<close>

theorem tick_writes_endpoints:
  assumes "i < length (particles s)"
    and "length (particles s) * 6 \<le> length (vertices s)"
  shows "\<exists>s'. updateParticles fp s = Inr s' \<and>
     (let p = particles s ! i; p' = particles s' ! i;
          cos_r = rnd fp (mcos fp (rotation p') * radius p);
          sin_r = rnd fp (msin fp (rotation p') * radius p)
      in rotation p' = rnd fp (rotation p + speed p) \<and>
         vertices s' ! (i * 6) = fround fp (rnd fp (x (position p) + cos_r)) \<and>
         vertices s' ! (i * 6 + 1) = fround fp (rnd fp (y (position p) + sin_r)) \<and>
         vertices s' ! (i * 6 + 2) = 0 \<and>
         vertices s' ! (i * 6 + 3) = fround fp (rnd fp (x (position p) - cos_r)) \<and>
         vertices s' ! (i * 6 + 4) = fround fp (rnd fp (y (position p) - sin_r)) \<and>
         vertices s' ! (i * 6 + 5) = 0)"
proof -
  obtain vs' where r:
    "updateParticles fp s =
       Inr (s\<lparr>particles := map (spin fp) (particles s), vertices := vs',
               gl_calls := gl_calls s @ [BufferData vs']\<rparr>)"
    and nth: "\<forall>j<length (vertices s). vs' ! j =
        (if j < length (particles s) * 6
         then segment fp (spin fp (particles s ! (j div 6))) ! (j mod 6)
         else vertices s ! j)"
    using updateParticles_result [of fp s] by blast
  have e: "vs' ! (i * 6 + k) = segment fp (spin fp (particles s ! i)) ! k" if "k < 6" for k
  proof -
    have "i * 6 + k < length (particles s) * 6" using assms(1) that by simp
    moreover have "(i * 6 + k) div 6 = i" "(i * 6 + k) mod 6 = k" using that by simp_all
    ultimately show ?thesis using nth assms(2) by simp
  qed
  have "vs' ! (i * 6) = segment fp (spin fp (particles s ! i)) ! 0"
    using e [of 0] by simp
  then show ?thesis
    using assms(1) e [of 1] e [of 2] e [of 3] e [of 4] e [of 5]
    by (intro exI [of _ "s\<lparr>particles := map (spin fp) (particles s), vertices := vs',
               gl_calls := gl_calls s @ [BufferData vs']\<rparr>"])
       (simp add: r Let_def spin_def segment_def)
qed

text \<open>
  In exact arithmetic, for the particle at (1, 2) with rotation -1, speed 1 and radius 3:
  the rotation becomes 0 and the endpoints are (4, 2, 0) and (-2, 2, 0).
\<close>

theorem tick_writes_endpoints_witness:
  "0 < length (particles one_particle) \<and>
   length (particles one_particle) * 6 \<le> length (vertices one_particle) \<and>
   (\<exists>s'. updateParticles exact one_particle = Inr s' \<and>
      rotation (particles s' ! 0) = 0 \<and>
      vertices s' ! 0 = 4 \<and> vertices s' ! 1 = 2 \<and> vertices s' ! 2 = 0 \<and>
      vertices s' ! 3 = - 2 \<and> vertices s' ! 4 = 2 \<and> vertices s' ! 5 = 0)"
proof -
  have h: "0 < length (particles one_particle)"
    "length (particles one_particle) * 6 \<le> length (vertices one_particle)"
    by (simp_all add: one_particle_def)
  have "\<exists>s'. updateParticles exact one_particle = Inr s' \<and>
      rotation (particles s' ! 0) = 0 \<and>
      vertices s' ! 0 = 4 \<and> vertices s' ! 1 = 2 \<and> vertices s' ! 2 = 0 \<and>
      vertices s' ! 3 = - 2 \<and> vertices s' ! 4 = 2 \<and> vertices s' ! 5 = 0"
    using tick_writes_endpoints [OF h, of exact]
    by (auto simp: Let_def one_particle_def exact_def numeral_2_eq_2)
  with h show ?thesis by blast
qed

text \<open>
  C2, as amended. After \<open>n\<close> ticks with no reinitialization in between, the rotation of a
  particle is its initial rotation with its speed added \<open>n\<close> times, each sum rounded as
  the arithmetic rounds it. In exact arithmetic this is the initial rotation plus \<open>n\<close>
  times the speed. In double arithmetic it differs from that by at most \<open>n\<close> half units
  in the last place of the doubles below \<open>2 ^ k\<close>, that is by at most \<open>n * 2 ^ (k - 54)\<close>,
  as long as the rotation, nonnegative with a nonnegative speed, stays below \<open>2 ^ k\<close>.
\<close>

theorem rotation_after_ticks:
  assumes "i < length (particles s)"
  shows "(\<exists>s'. ticks fp n s = Inr s' \<and>
            rotation (particles s' ! i) =
              ((\<lambda>r. rnd fp (r + speed (particles s ! i))) ^^ n) (rotation (particles s ! i))) \<and>
         (\<exists>s'. ticks exact n s = Inr s' \<and>
            rotation (particles s' ! i) =
              rotation (particles s ! i) + real n * speed (particles s ! i)) \<and>
         (0 \<le> rotation (particles s ! i) \<and> 0 \<le> speed (particles s ! i) \<and> - 1021 \<le> k \<and>
          rotation (particles s ! i) + real n * (speed (particles s ! i) + 2 powi (k - 54))
            \<le> 2 powi k \<longrightarrow>
            (\<exists>s'. ticks ieee n s = Inr s' \<and>
               \<bar>rotation (particles s' ! i)
                  - (rotation (particles s ! i) + real n * speed (particles s ! i))\<bar>
               \<le> real n * 2 powi (k - 54)))"
proof (intro conjI impI)
  show "\<exists>s'. ticks fp n s = Inr s' \<and>
      rotation (particles s' ! i) =
        ((\<lambda>r. rnd fp (r + speed (particles s ! i))) ^^ n) (rotation (particles s ! i))"
    using ticks_rotation [OF assms, of fp n] by blast
  show "\<exists>s'. ticks exact n s = Inr s' \<and>
      rotation (particles s' ! i) = rotation (particles s ! i) + real n * speed (particles s ! i)"
    using ticks_rotation [OF assms, of exact n]
    by (auto simp: exact_simps funpow_add_const)
next
  assume a: "0 \<le> rotation (particles s ! i) \<and> 0 \<le> speed (particles s ! i) \<and> - 1021 \<le> k \<and>
    rotation (particles s ! i) + real n * (speed (particles s ! i) + 2 powi (k - 54)) \<le> 2 powi k"
  then have "\<bar>((\<lambda>v. rnd64 (v + speed (particles s ! i))) ^^ n) (rotation (particles s ! i))
      - (rotation (particles s ! i) + real n * speed (particles s ! i))\<bar> \<le> real n * 2 powi (k - 54)"
    by (intro rnd64_drift(1)) simp_all
  then show "\<exists>s'. ticks ieee n s = Inr s' \<and>
      \<bar>rotation (particles s' ! i) - (rotation (particles s ! i) + real n * speed (particles s ! i))\<bar>
        \<le> real n * 2 powi (k - 54)"
    using ticks_rotation [OF assms, of ieee n] by (auto simp: ieee_simps)
qed

text \<open>
  Two ticks of the first of the particles made when every \<^verbatim>\<open>Math.random()\<close> returns
  0.25 (rotation 1.5707963267948966, speed 0.015), with \<open>k = 1\<close>: the rotation after
  them is within \<open>2 ^ -52\<close> of \<open>rotation + 2 * speed\<close>.
\<close>

theorem rotation_after_ticks_witness:
  "0 < length (particles quarter_system) \<and>
   0 \<le> rotation (particles quarter_system ! 0) \<and>
   0 \<le> speed (particles quarter_system ! 0) \<and>
   (- 1021 :: int) \<le> 1 \<and>
   rotation (particles quarter_system ! 0)
     + real 2 * (speed (particles quarter_system ! 0) + 2 powi (1 - 54)) \<le> 2 powi 1 \<and>
   (\<exists>s'. ticks exact 2 quarter_system = Inr s' \<and>
      rotation (particles s' ! 0) = 884279719003555 / 2 ^ 49 + 2 * (1080863910568919 / 2 ^ 56)) \<and>
   (\<exists>s'. ticks ieee 2 quarter_system = Inr s' \<and>
      \<bar>rotation (particles s' ! 0)
         - (rotation (particles quarter_system ! 0) + real 2 * speed (particles quarter_system ! 0))\<bar>
      \<le> real 2 * 2 powi (1 - 54))"
proof -
  have h: "0 < length (particles quarter_system)" by (simp add: quarter_length)
  have v: "rotation (particles quarter_system ! 0) = 884279719003555 / 2 ^ 49"
    "speed (particles quarter_system ! 0) = 1080863910568919 / 2 ^ 56"
    by (simp_all add: quarter_rotation quarter_speed)
  have a: "0 \<le> rotation (particles quarter_system ! 0) \<and>
    0 \<le> speed (particles quarter_system ! 0) \<and> (- 1021 :: int) \<le> 1 \<and>
    rotation (particles quarter_system ! 0)
      + real 2 * (speed (particles quarter_system ! 0) + 2 powi (1 - 54)) \<le> 2 powi 1"
    unfolding v by (simp add: power_int_minus)
  note t = rotation_after_ticks [OF h, of _ 2 1]
  have "\<exists>s'. ticks exact 2 quarter_system = Inr s' \<and>
      rotation (particles s' ! 0) = 884279719003555 / 2 ^ 49 + 2 * (1080863910568919 / 2 ^ 56)"
    using conjunct1 [OF conjunct2 [OF t [of exact]]] unfolding v by simp
  moreover have "\<exists>s'. ticks ieee 2 quarter_system = Inr s' \<and>
      \<bar>rotation (particles s' ! 0)
         - (rotation (particles quarter_system ! 0) + real 2 * speed (particles quarter_system ! 0))\<bar>
      \<le> real 2 * 2 powi (1 - 54)"
    using conjunct2 [OF conjunct2 [OF t [of exact]]] a by blast
  ultimately show ?thesis using h a by blast
qed

text \<open>
  As the claim states it, the equality fails in double arithmetic. The particles made
  when every \<^verbatim>\<open>Math.random()\<close> returns 0.25 have rotation 1.5707963267948966 and
  speed 0.015. Two ticks give the rotation 1.6007963267948964: that is not the real
  number \<open>rotation + 2 * speed\<close>, and not the double 1.6007963267948966 either, which
  the expression \<^verbatim>\<open>rotation + 2 * speed\<close> evaluates to.
\<close>

theorem rotation_after_ticks_counterexample:
  "rotation (particles (projr (ticks ieee 2 quarter_system)) ! 0) \<noteq>
     rotation (particles quarter_system ! 0) + 2 * speed (particles quarter_system ! 0) \<and>
   rotation (particles (projr (ticks ieee 2 quarter_system)) ! 0) \<noteq>
     rnd ieee (rotation (particles quarter_system ! 0)
       + rnd ieee (2 * speed (particles quarter_system ! 0)))"
proof -
  have i: "0 < length (particles quarter_system)" by (simp add: quarter_length)
  obtain s' where run: "ticks ieee 2 quarter_system = Inr s'"
    and rot: "rotation (particles s' ! 0) =
       ((\<lambda>r. rnd ieee (r + speed (particles quarter_system ! 0))) ^^ 2)
         (rotation (particles quarter_system ! 0))"
    using ticks_rotation [OF i, of ieee 2] by blast
  have "rotation (particles s' ! 0) = 3604672870424777 / 2 ^ 51"
    unfolding rot
    by (simp only: quarter_rotation quarter_speed ieee_simps numeral_2_eq_2 funpow.simps o_apply
        id_apply q_tick_1 q_tick_2)
  moreover have "rnd ieee (rotation (particles quarter_system ! 0)
       + rnd ieee (2 * speed (particles quarter_system ! 0))) = 7209345740849555 / 2 ^ 52"
    by (simp only: quarter_rotation quarter_speed ieee_simps q_js_a q_js_b)
  ultimately show ?thesis
    by (simp add: run quarter_rotation quarter_speed)
qed

text \<open>
  C3, as amended. After a tick, in exact arithmetic the midpoint of the two endpoints
  stored for a particle is its anchor \<open>(position.x, position.y, 0)\<close>. In every
  arithmetic the two endpoints are the anchor plus and minus the same offset
  \<open>(cos, sin)\<close>, each rounded when it is computed and stored: the midpoint is the anchor
  displaced by the mean of the two rounding errors, and its third coordinate is 0. In
  double arithmetic with a single-precision buffer, for an anchor with both coordinates
  in \<open>[-1, 1]\<close>, as on the grid, and a radius of at most 1/2, the midpoint is within
  \<open>2 ^ -24 + 2 ^ -53\<close> of the anchor in each of the first two coordinates.
\<close>

theorem endpoints_symmetric_about_anchor:
  assumes "i < length (particles s)"
    and "length (particles s) * 6 \<le> length (vertices s)"
  shows "(\<exists>s'. updateParticles exact s = Inr s' \<and>
            (vertices s' ! (i * 6) + vertices s' ! (i * 6 + 3)) / 2 = x (position (particles s' ! i)) \<and>
            (vertices s' ! (i * 6 + 1) + vertices s' ! (i * 6 + 4)) / 2 = y (position (particles s' ! i)) \<and>
            (vertices s' ! (i * 6 + 2) + vertices s' ! (i * 6 + 5)) / 2 = 0) \<and>
         (\<exists>s'. updateParticles fp s = Inr s' \<and>
            (let p = particles s' ! i;
                 ax = x (position p);
                 ay = y (position p);
                 cos_r = rnd fp (mcos fp (rotation p) * radius p);
                 sin_r = rnd fp (msin fp (rotation p) * radius p)
             in (vertices s' ! (i * 6) + vertices s' ! (i * 6 + 3)) / 2 =
                  ax + ((fround fp (rnd fp (ax + cos_r)) - (ax + cos_r))
                        + (fround fp (rnd fp (ax - cos_r)) - (ax - cos_r))) / 2 \<and>
                (vertices s' ! (i * 6 + 1) + vertices s' ! (i * 6 + 4)) / 2 =
                  ay + ((fround fp (rnd fp (ay + sin_r)) - (ay + sin_r))
                        + (fround fp (rnd fp (ay - sin_r)) - (ay - sin_r))) / 2 \<and>
                (vertices s' ! (i * 6 + 2) + vertices s' ! (i * 6 + 5)) / 2 = 0)) \<and>
         (\<bar>x (position (particles s ! i))\<bar> \<le> 1 \<and> \<bar>y (position (particles s ! i))\<bar> \<le> 1 \<and>
          \<bar>radius (particles s ! i)\<bar> \<le> 1 / 2 \<longrightarrow>
            (\<exists>s'. updateParticles ieee s = Inr s' \<and>
               \<bar>(vertices s' ! (i * 6) + vertices s' ! (i * 6 + 3)) / 2
                  - x (position (particles s' ! i))\<bar> \<le> 1 / 2 ^ 24 + 1 / 2 ^ 53 \<and>
               \<bar>(vertices s' ! (i * 6 + 1) + vertices s' ! (i * 6 + 4)) / 2
                  - y (position (particles s' ! i))\<bar> \<le> 1 / 2 ^ 24 + 1 / 2 ^ 53 \<and>
               (vertices s' ! (i * 6 + 2) + vertices s' ! (i * 6 + 5)) / 2 = 0))"
proof (intro conjI impI)
  have seg: "\<exists>s'. updateParticles fp s = Inr s' \<and>
      particles s' ! i = spin fp (particles s ! i) \<and>
      vertices s' ! (i * 6) = segment fp (spin fp (particles s ! i)) ! 0 \<and>
      vertices s' ! (i * 6 + 1) = segment fp (spin fp (particles s ! i)) ! 1 \<and>
      vertices s' ! (i * 6 + 2) = segment fp (spin fp (particles s ! i)) ! 2 \<and>
      vertices s' ! (i * 6 + 3) = segment fp (spin fp (particles s ! i)) ! 3 \<and>
      vertices s' ! (i * 6 + 4) = segment fp (spin fp (particles s ! i)) ! 4 \<and>
      vertices s' ! (i * 6 + 5) = segment fp (spin fp (particles s ! i)) ! 5" for fp
    using updateParticles_segment [OF assms, of fp] assms(1) by auto
  show "\<exists>s'. updateParticles exact s = Inr s' \<and>
      (vertices s' ! (i * 6) + vertices s' ! (i * 6 + 3)) / 2 = x (position (particles s' ! i)) \<and>
      (vertices s' ! (i * 6 + 1) + vertices s' ! (i * 6 + 4)) / 2 = y (position (particles s' ! i)) \<and>
      (vertices s' ! (i * 6 + 2) + vertices s' ! (i * 6 + 5)) / 2 = 0"
    using seg [of exact] by (auto simp: segment_def exact_simps)
  show "\<exists>s'. updateParticles fp s = Inr s' \<and>
      (let p = particles s' ! i;
           ax = x (position p);
           ay = y (position p);
           cos_r = rnd fp (mcos fp (rotation p) * radius p);
           sin_r = rnd fp (msin fp (rotation p) * radius p)
       in (vertices s' ! (i * 6) + vertices s' ! (i * 6 + 3)) / 2 =
            ax + ((fround fp (rnd fp (ax + cos_r)) - (ax + cos_r))
                  + (fround fp (rnd fp (ax - cos_r)) - (ax - cos_r))) / 2 \<and>
          (vertices s' ! (i * 6 + 1) + vertices s' ! (i * 6 + 4)) / 2 =
            ay + ((fround fp (rnd fp (ay + sin_r)) - (ay + sin_r))
                  + (fround fp (rnd fp (ay - sin_r)) - (ay - sin_r))) / 2 \<and>
          (vertices s' ! (i * 6 + 2) + vertices s' ! (i * 6 + 5)) / 2 = 0)"
    using seg [of fp] by (auto simp: segment_def Let_def field_simps)
  assume a: "\<bar>x (position (particles s ! i))\<bar> \<le> 1 \<and> \<bar>y (position (particles s ! i))\<bar> \<le> 1 \<and>
    \<bar>radius (particles s ! i)\<bar> \<le> 1 / 2"
  define p where "p = spin ieee (particles s ! i)"
  have q: "position p = position (particles s ! i)" "radius p = radius (particles s ! i)"
    by (simp_all add: p_def spin_def)
  have b: "\<bar>x (position p)\<bar> \<le> 1" "\<bar>y (position p)\<bar> \<le> 1" "\<bar>radius p\<bar> \<le> 1 / 2"
    using a unfolding q by simp_all
  have c: "\<bar>cos (rotation p)\<bar> \<le> 1" "\<bar>sin (rotation p)\<bar> \<le> 1" by simp_all
  have mx: "\<bar>(segment ieee p ! 0 + segment ieee p ! 3) / 2 - x (position p)\<bar>
      \<le> 1 / 2 ^ 24 + 1 / 2 ^ 53"
    using ieee_midpoint [OF b(1) c(1) b(3)] by (simp add: segment_def ieee_simps)
  have my: "\<bar>(segment ieee p ! 1 + segment ieee p ! 4) / 2 - y (position p)\<bar>
      \<le> 1 / 2 ^ 24 + 1 / 2 ^ 53"
    using ieee_midpoint [OF b(2) c(2) b(3)] by (simp add: segment_def ieee_simps)
  have mz: "(segment ieee p ! 2 + segment ieee p ! 5) / 2 = 0"
    by (simp add: segment_def)
  obtain s' where run: "updateParticles ieee s = Inr s'"
    and v: "particles s' ! i = p"
      "vertices s' ! (i * 6) = segment ieee p ! 0"
      "vertices s' ! (i * 6 + 1) = segment ieee p ! 1"
      "vertices s' ! (i * 6 + 2) = segment ieee p ! 2"
      "vertices s' ! (i * 6 + 3) = segment ieee p ! 3"
      "vertices s' ! (i * 6 + 4) = segment ieee p ! 4"
      "vertices s' ! (i * 6 + 5) = segment ieee p ! 5"
    using seg [of ieee] unfolding p_def by blast
  show "\<exists>s'. updateParticles ieee s = Inr s' \<and>
      \<bar>(vertices s' ! (i * 6) + vertices s' ! (i * 6 + 3)) / 2
         - x (position (particles s' ! i))\<bar> \<le> 1 / 2 ^ 24 + 1 / 2 ^ 53 \<and>
      \<bar>(vertices s' ! (i * 6 + 1) + vertices s' ! (i * 6 + 4)) / 2
         - y (position (particles s' ! i))\<bar> \<le> 1 / 2 ^ 24 + 1 / 2 ^ 53 \<and>
      (vertices s' ! (i * 6 + 2) + vertices s' ! (i * 6 + 5)) / 2 = 0"
  proof (intro exI [of _ s'] conjI)
    show "updateParticles ieee s = Inr s'" by (rule run)
    show "\<bar>(vertices s' ! (i * 6) + vertices s' ! (i * 6 + 3)) / 2
         - x (position (particles s' ! i))\<bar> \<le> 1 / 2 ^ 24 + 1 / 2 ^ 53"
      unfolding v by (rule mx)
    show "\<bar>(vertices s' ! (i * 6 + 1) + vertices s' ! (i * 6 + 4)) / 2
         - y (position (particles s' ! i))\<bar> \<le> 1 / 2 ^ 24 + 1 / 2 ^ 53"
      unfolding v by (rule my)
    show "(vertices s' ! (i * 6 + 2) + vertices s' ! (i * 6 + 5)) / 2 = 0"
      unfolding v by (rule mz)
  qed
qed

text \<open>
  The particle anchored at (-1, -1) with radius 1/16: the midpoint of its endpoints is
  (-1, -1, 0) in exact arithmetic, and within \<open>2 ^ -24 + 2 ^ -53\<close> of it in double
  arithmetic.
\<close>

theorem endpoints_symmetric_about_anchor_witness:
  "0 < length (particles saturated) \<and>
   length (particles saturated) * 6 \<le> length (vertices saturated) \<and>
   \<bar>x (position (particles saturated ! 0))\<bar> \<le> 1 \<and>
   \<bar>y (position (particles saturated ! 0))\<bar> \<le> 1 \<and>
   \<bar>radius (particles saturated ! 0)\<bar> \<le> 1 / 2 \<and>
   (\<exists>s'. updateParticles exact saturated = Inr s' \<and>
      (vertices s' ! (0 * 6) + vertices s' ! (0 * 6 + 3)) / 2 = - 1 \<and>
      (vertices s' ! (0 * 6 + 1) + vertices s' ! (0 * 6 + 4)) / 2 = - 1 \<and>
      (vertices s' ! (0 * 6 + 2) + vertices s' ! (0 * 6 + 5)) / 2 = 0) \<and>
   (\<exists>s'. updateParticles ieee saturated = Inr s' \<and>
      \<bar>(vertices s' ! (0 * 6) + vertices s' ! (0 * 6 + 3)) / 2 - (- 1)\<bar>
        \<le> 1 / 2 ^ 24 + 1 / 2 ^ 53 \<and>
      \<bar>(vertices s' ! (0 * 6 + 1) + vertices s' ! (0 * 6 + 4)) / 2 - (- 1)\<bar>
        \<le> 1 / 2 ^ 24 + 1 / 2 ^ 53 \<and>
      (vertices s' ! (0 * 6 + 2) + vertices s' ! (0 * 6 + 5)) / 2 = 0)"
proof -
  have h: "0 < length (particles saturated)"
    "length (particles saturated) * 6 \<le> length (vertices saturated)"
    by (simp_all add: saturated_def)
  have a: "\<bar>x (position (particles saturated ! 0))\<bar> \<le> 1 \<and>
    \<bar>y (position (particles saturated ! 0))\<bar> \<le> 1 \<and>
    \<bar>radius (particles saturated ! 0)\<bar> \<le> 1 / 2"
    by (simp add: saturated_def)
  have pos: "position (particles s' ! 0) = \<lparr>x = - 1, y = - 1\<rparr>"
    if "updateParticles fp saturated = Inr s'" for fp s'
    using updateParticles_frame [OF h(1), of fp] that by (auto simp: saturated_def)
  note t = endpoints_symmetric_about_anchor [OF h, of exact]
  obtain s' where run: "updateParticles exact saturated = Inr s'"
    and m: "(vertices s' ! (0 * 6) + vertices s' ! (0 * 6 + 3)) / 2 = x (position (particles s' ! 0))"
      "(vertices s' ! (0 * 6 + 1) + vertices s' ! (0 * 6 + 4)) / 2 = y (position (particles s' ! 0))"
      "(vertices s' ! (0 * 6 + 2) + vertices s' ! (0 * 6 + 5)) / 2 = 0"
    using conjunct1 [OF t] by blast
  have e: "\<exists>s'. updateParticles exact saturated = Inr s' \<and>
      (vertices s' ! (0 * 6) + vertices s' ! (0 * 6 + 3)) / 2 = - 1 \<and>
      (vertices s' ! (0 * 6 + 1) + vertices s' ! (0 * 6 + 4)) / 2 = - 1 \<and>
      (vertices s' ! (0 * 6 + 2) + vertices s' ! (0 * 6 + 5)) / 2 = 0"
    using run m pos [OF run] by auto
  obtain s'' where run': "updateParticles ieee saturated = Inr s''"
    and m': "\<bar>(vertices s'' ! (0 * 6) + vertices s'' ! (0 * 6 + 3)) / 2
         - x (position (particles s'' ! 0))\<bar> \<le> 1 / 2 ^ 24 + 1 / 2 ^ 53"
      "\<bar>(vertices s'' ! (0 * 6 + 1) + vertices s'' ! (0 * 6 + 4)) / 2
         - y (position (particles s'' ! 0))\<bar> \<le> 1 / 2 ^ 24 + 1 / 2 ^ 53"
      "(vertices s'' ! (0 * 6 + 2) + vertices s'' ! (0 * 6 + 5)) / 2 = 0"
    using conjunct2 [OF conjunct2 [OF t]] a by blast
  have "\<exists>s'. updateParticles ieee saturated = Inr s' \<and>
      \<bar>(vertices s' ! (0 * 6) + vertices s' ! (0 * 6 + 3)) / 2 - (- 1)\<bar>
        \<le> 1 / 2 ^ 24 + 1 / 2 ^ 53 \<and>
      \<bar>(vertices s' ! (0 * 6 + 1) + vertices s' ! (0 * 6 + 4)) / 2 - (- 1)\<bar>
        \<le> 1 / 2 ^ 24 + 1 / 2 ^ 53 \<and>
      (vertices s' ! (0 * 6 + 2) + vertices s' ! (0 * 6 + 5)) / 2 = 0"
    using run' m' pos [OF run'] by auto
  with e h a show ?thesis by blast
qed

text \<open>
  As the claim states it, the equality fails in double arithmetic with a single-precision
  buffer. Of the particles made when every \<^verbatim>\<open>Math.random()\<close> returns 0.25, the second
  is anchored at \<open>x = -0.9929328621908127\<close>, which is \<open>- 69871438565101 / 2 ^ 46\<close>. After
  a tick its endpoints lie between -2 and -1/2, where single-precision numbers are
  multiples of \<open>2 ^ -24\<close>; so their midpoint is a multiple of \<open>2 ^ -25\<close>, and the anchor is
  not. (With the cosine of a correctly rounding library the endpoints are
  -0.994057834148407 and -0.9918078780174255, the midpoint -0.9929328560829163.)
\<close>

theorem endpoints_symmetric_about_anchor_counterexample:
  "(vertices (projr (updateParticles ieee quarter_system)) ! 6
      + vertices (projr (updateParticles ieee quarter_system)) ! 9) / 2
   \<noteq> x (position (particles (projr (updateParticles ieee quarter_system)) ! 1))"
proof -
  have h: "1 < length (particles quarter_system)"
    "length (particles quarter_system) * 6 \<le> length (vertices quarter_system)"
    by (simp_all add: quarter_length quarter_vertices)
  define p where "p = spin ieee (particles quarter_system ! 1)"
  define c where "c = rnd64 (rnd64 (cos (rotation p)) * radius p)"
  obtain s' where run: "updateParticles ieee quarter_system = Inr s'"
    and ps: "particles s' = map (spin ieee) (particles quarter_system)"
    and v6: "vertices s' ! (1 * 6) = segment ieee p ! 0"
    and v9: "vertices s' ! (1 * 6 + 3) = segment ieee p ! 3"
    using updateParticles_segment [OF h, of ieee] unfolding p_def by blast
  have "position p = position (particles quarter_system ! 1)"
    "radius p = radius (particles quarter_system ! 1)"
    by (simp_all add: p_def spin_def)
  then have px: "x (position p) = - (69871438565101 / 2 ^ 46)"
    and pr: "radius p = 1351079888211149 / 2 ^ 54"
    using quarter_x1 quarter_radius [of 1] by simp_all
  have a6: "vertices s' ! 6 = fround32 (rnd64 (x (position p) + c))"
    using v6 by (simp add: segment_def ieee_simps c_def)
  have a9: "vertices s' ! 9 = fround32 (rnd64 (x (position p) - c))"
    using v9 by (simp add: segment_def ieee_simps c_def)
  have "\<bar>cos (rotation p)\<bar> \<le> 2 powi 0" by simp
  then have "\<bar>rnd64 (cos (rotation p))\<bar> \<le> 2 powi 0"
    unfolding rnd64_def by (rule round_to_abs_le_pow) simp_all
  then have "\<bar>rnd64 (cos (rotation p)) * radius p\<bar> \<le> 1 * (1351079888211149 / 2 ^ 54)"
    unfolding abs_mult pr by (intro mult_mono) simp_all
  then have "\<bar>rnd64 (cos (rotation p)) * radius p\<bar> \<le> 2 powi (- 3)"
    by (simp add: power_int_minus)
  then have "\<bar>c\<bar> \<le> 2 powi (- 3)"
    unfolding c_def rnd64_def by (rule round_to_abs_le_pow) simp_all
  then have c: "\<bar>c\<bar> \<le> 1 / 8" by (simp add: power_int_minus)
  have "- (69871438565101 / 2 ^ 46) \<le> - (7 / 8 :: real)" by simp
  then have "x (position p) + c \<le> - (1 / 2)" "x (position p) - c \<le> - (1 / 2)"
    using c unfolding px by linarith+
  then have "1 / 2 \<le> \<bar>x (position p) + c\<bar>" "1 / 2 \<le> \<bar>x (position p) - c\<bar>"
    by linarith+
  then obtain n m :: int where
    n: "fround32 (rnd64 (x (position p) + c)) = of_int n / 2 ^ 24" and
    m: "fround32 (rnd64 (x (position p) - c)) = of_int m / 2 ^ 24"
    using fround32_grid by blast
  have w6: "vertices s' ! 6 = real_of_int n / 2 ^ 24" by (simp only: a6 n)
  have w9: "vertices s' ! 9 = real_of_int m / 2 ^ 24" by (simp only: a9 m)
  have "(vertices s' ! 6 + vertices s' ! 9) / 2 \<noteq> x (position p)"
  proof
    assume "(vertices s' ! 6 + vertices s' ! 9) / 2 = x (position p)"
    then have "(real_of_int n / 2 ^ 24 + real_of_int m / 2 ^ 24) / 2
        = - (real_of_int 69871438565101 / 2 ^ 46)"
      by (simp only: w6 w9 px of_int_numeral)
    then have "(n + m) * 2 ^ 21 = - 69871438565101" by (rule midpoint_on_grid)
    then have "even (- 69871438565101 :: int)"
      by (metis even_mult_iff even_numeral even_power zero_less_numeral)
    then show False by simp
  qed
  moreover have "particles s' ! 1 = p" using h(1) by (simp add: ps p_def)
  ultimately show ?thesis by (simp add: run)
qed

text \<open>
  C4. At all times after initialization the vertex buffer has six entries for every
  particle, \<open>length vertices = length particles * 6\<close>: this holds of the system the
  constructor returns and is kept by every tick, every frame and every
  reinitialization through \<^verbatim>\<open>setParticleCount\<close>.
\<close>

theorem buffer_length_invariant:
  "reachable fp s \<Longrightarrow> length (vertices s) = length (particles s) * 6"
  using aligned_reachable [of fp s] by (simp add: aligned_def)

text \<open>
  A system that is reached: constructed, reinitialized, ticked once.
\<close>

theorem buffer_length_invariant_witness:
  "reachable exact
     (projr (updateParticles exact
        (fst (setParticleCount exact (\<lambda>k. 1 / 2) working 100
           (projr (constructor exact (\<lambda>k. 0) working)))))) \<and>
   length (vertices
     (projr (updateParticles exact
        (fst (setParticleCount exact (\<lambda>k. 1 / 2) working 100
           (projr (constructor exact (\<lambda>k. 0) working))))))) =
   length (particles
     (projr (updateParticles exact
        (fst (setParticleCount exact (\<lambda>k. 1 / 2) working 100
           (projr (constructor exact (\<lambda>k. 0) working))))))) * 6"
proof -
  let ?s1 = "projr (constructor exact (\<lambda>k. 0) working)"
  let ?s2 = "fst (setParticleCount exact (\<lambda>k. 1 / 2) working 100 ?s1)"
  let ?s3 = "projr (updateParticles exact ?s2)"
  obtain s where "constructor exact (\<lambda>k. 0) working = Inr s"
    using constructor_working by blast
  then have "reachable exact ?s1"
    using reach_new [of exact "\<lambda>k. 0" working s] by simp
  then have "reachable exact ?s2"
    using reach_count [of exact ?s1 "\<lambda>k. 1 / 2" working 100 ?s2
        "snd (setParticleCount exact (\<lambda>k. 1 / 2) working 100 ?s1)"] by simp
  moreover obtain t where "updateParticles exact ?s2 = Inr t"
    using updateParticles_result [of exact ?s2] by blast
  ultimately have r: "reachable exact ?s3"
    using reach_tick [of exact ?s2 t] by simp
  show ?thesis
    using r buffer_length_invariant [OF r] by simp
qed

text \<open>
  C5. Every tick rewrites the vertex buffer in full: each of the \<open>length particles * 6\<close>
  entries is assigned in the tick. So the buffer after the tick is the same whatever the
  buffer held before it, and each entry is the value computed in this tick from the
  particle it belongs to.
\<close>

theorem tick_rewrites_whole_buffer:
  assumes "particles t = particles s"
    and "length (vertices s) = length (particles s) * 6"
    and "length (vertices t) = length (particles s) * 6"
  shows "\<exists>s' t'. updateParticles fp s = Inr s' \<and> updateParticles fp t = Inr t' \<and>
           vertices t' = vertices s' \<and>
           length (vertices s') = length (particles s') * 6 \<and>
           (\<forall>j<length (vertices s').
              vertices s' ! j = segment fp (particles s' ! (j div 6)) ! (j mod 6))"
proof -
  obtain vs where s:
    "updateParticles fp s =
       Inr (s\<lparr>particles := map (spin fp) (particles s), vertices := vs,
               gl_calls := gl_calls s @ [BufferData vs]\<rparr>)"
    "length vs = length (vertices s)"
    "\<forall>j<length (vertices s). vs ! j =
        (if j < length (particles s) * 6
         then segment fp (spin fp (particles s ! (j div 6))) ! (j mod 6)
         else vertices s ! j)"
    using updateParticles_result [of fp s] by blast
  obtain ws where t:
    "updateParticles fp t =
       Inr (t\<lparr>particles := map (spin fp) (particles t), vertices := ws,
               gl_calls := gl_calls t @ [BufferData ws]\<rparr>)"
    "length ws = length (vertices t)"
    "\<forall>j<length (vertices t). ws ! j =
        (if j < length (particles t) * 6
         then segment fp (spin fp (particles t ! (j div 6))) ! (j mod 6)
         else vertices t ! j)"
    using updateParticles_result [of fp t] by blast
  have "ws = vs"
    by (rule nth_equalityI) (use assms s(2,3) t(2,3) in simp_all)
  moreover have "vs ! j = segment fp (map (spin fp) (particles s) ! (j div 6)) ! (j mod 6)"
    if "j < length vs" for j
  proof -
    have "j div 6 < length (particles s)" using that s(2) assms(2) by simp
    then show ?thesis using that s(2,3) assms(2) by simp
  qed
  ultimately show ?thesis
    using s(1,2) t(1) assms(2) by simp
qed

text \<open>
  One particle, with a buffer of sevens and with a buffer of zeros.
\<close>

theorem tick_rewrites_whole_buffer_witness:
  "particles (one_particle\<lparr>vertices := [0, 0, 0, 0, 0, 0]\<rparr>) = particles one_particle \<and>
   length (vertices one_particle) = length (particles one_particle) * 6 \<and>
   length (vertices (one_particle\<lparr>vertices := [0, 0, 0, 0, 0, 0]\<rparr>))
     = length (particles one_particle) * 6 \<and>
   (\<exists>s' t'. updateParticles exact one_particle = Inr s' \<and>
      updateParticles exact (one_particle\<lparr>vertices := [0, 0, 0, 0, 0, 0]\<rparr>) = Inr t' \<and>
      vertices t' = vertices s')"
proof -
  have h: "particles (one_particle\<lparr>vertices := [0, 0, 0, 0, 0, 0]\<rparr>) = particles one_particle"
    "length (vertices one_particle) = length (particles one_particle) * 6"
    "length (vertices (one_particle\<lparr>vertices := [0, 0, 0, 0, 0, 0]\<rparr>))
       = length (particles one_particle) * 6"
    by (simp_all add: one_particle_def)
  from tick_rewrites_whole_buffer [OF h, of exact] h show ?thesis by blast
qed

text \<open>
  C6 (the code departs from the claim). Initialization with a requested count should
  arrange that many particles on the grid of width \<open>ceil (sqrt count)\<close>. But
  \<^verbatim>\<open>setParticleCount(count)\<close> stores the count and calls \<^verbatim>\<open>createParticles\<close>, whose
  first statement overwrites it with 80000: whatever count is requested, 80000
  particles are created and the buffer gets 480000 entries. Here for a request of 100.
\<close>

theorem setParticleCount_ignores_count:
  "numParticles (fst (setParticleCount fp rand env 100 s)) = 80000 \<and>
   length (particles (fst (setParticleCount fp rand env 100 s))) = 80000 \<and>
   length (vertices (fst (setParticleCount fp rand env 100 s))) = 480000"
  by (simp add: setParticleCount_def Let_def createParticles_numParticles
      createParticles_length createParticles_vertices)

text \<open>
  C7. Whatever numbers in \<open>[0, 1)\<close> the random source returns, every particle that
  \<^verbatim>\<open>createParticles\<close> makes has a rotation in \<open>[0, 2 pi)\<close>, a speed in \<open>[0.01, 0.03)\<close>
  and a radius in \<open>[0.05, 0.15)\<close>. This holds in exact arithmetic, and in double
  arithmetic for random numbers that are doubles (the largest double below 1 gives the
  doubles 0.03 and 0.15, which lie below the real numbers 0.03 and 0.15, and
  \<^verbatim>\<open>Math.PI\<close> lies below \<open>pi\<close>).
\<close>

theorem created_particles_in_range:
  assumes "fp = exact \<or> fp = ieee"
    and "\<forall>k. 0 \<le> rand k \<and> rand k < 1 \<and> rnd fp (rand k) = rand k"
    and "i < length (particles (fst (createParticles fp rand env s)))"
  shows "0 \<le> rotation (particles (fst (createParticles fp rand env s)) ! i) \<and>
         rotation (particles (fst (createParticles fp rand env s)) ! i) < 2 * pi \<and>
         1 / 100 \<le> speed (particles (fst (createParticles fp rand env s)) ! i) \<and>
         speed (particles (fst (createParticles fp rand env s)) ! i) < 3 / 100 \<and>
         5 / 100 \<le> radius (particles (fst (createParticles fp rand env s)) ! i) \<and>
         radius (particles (fst (createParticles fp rand env s)) ! i) < 15 / 100"
proof -
  note p = created_particle [OF assms(3)]
  from assms(1) show ?thesis
  proof
    assume fp: "fp = exact"
    have "0 \<le> rand (3 * i) * pi * 2 \<and> rand (3 * i) * pi * 2 < 2 * pi \<and>
         1 / 100 \<le> rand (3 * i + 1) * (2 / 100) + 1 / 100 \<and>
         rand (3 * i + 1) * (2 / 100) + 1 / 100 < 3 / 100 \<and>
         5 / 100 \<le> rand (3 * i + 2) * (1 / 10) + 5 / 100 \<and>
         rand (3 * i + 2) * (1 / 10) + 5 / 100 < 15 / 100"
      using assms(2) by (intro exact_ranges) simp_all
    then have "0 \<le> rotation (newParticle exact rand gw cs i (3 * i)) \<and>
         rotation (newParticle exact rand gw cs i (3 * i)) < 2 * pi \<and>
         1 / 100 \<le> speed (newParticle exact rand gw cs i (3 * i)) \<and>
         speed (newParticle exact rand gw cs i (3 * i)) < 3 / 100 \<and>
         5 / 100 \<le> radius (newParticle exact rand gw cs i (3 * i)) \<and>
         radius (newParticle exact rand gw cs i (3 * i)) < 15 / 100" for gw cs
      by (simp add: newParticle_def exact_simps)
    then show ?thesis
      unfolding p unfolding fp by blast
  next
    assume fp: "fp = ieee"
    have "0 \<le> rnd64 (rnd64 (rand (3 * i) * (884279719003555 / 2 ^ 48)) * 2) \<and>
         rnd64 (rnd64 (rand (3 * i) * (884279719003555 / 2 ^ 48)) * 2) < 2 * pi \<and>
         1 / 100 \<le> rnd64 (rnd64 (rand (3 * i + 1) * rnd64 0.02) + rnd64 0.01) \<and>
         rnd64 (rnd64 (rand (3 * i + 1) * rnd64 0.02) + rnd64 0.01) < 3 / 100 \<and>
         5 / 100 \<le> rnd64 (rnd64 (rand (3 * i + 2) * rnd64 0.1) + rnd64 0.05) \<and>
         rnd64 (rnd64 (rand (3 * i + 2) * rnd64 0.1) + rnd64 0.05) < 15 / 100"
      using assms(2) unfolding fp by (intro ieee_ranges) (simp_all add: ieee_simps)
    then have "0 \<le> rotation (newParticle ieee rand gw cs i (3 * i)) \<and>
         rotation (newParticle ieee rand gw cs i (3 * i)) < 2 * pi \<and>
         1 / 100 \<le> speed (newParticle ieee rand gw cs i (3 * i)) \<and>
         speed (newParticle ieee rand gw cs i (3 * i)) < 3 / 100 \<and>
         5 / 100 \<le> radius (newParticle ieee rand gw cs i (3 * i)) \<and>
         radius (newParticle ieee rand gw cs i (3 * i)) < 15 / 100" for gw cs
      unfolding newParticle_def by (simp only: particle.select_convs ieee_simps)
    then show ?thesis
      unfolding p unfolding fp by blast
  qed
qed

text \<open>
  In double arithmetic, with 0.25 for every random number.
\<close>

theorem created_particles_in_range_witness:
  "(ieee = exact \<or> ieee = ieee) \<and>
   (\<forall>k. 0 \<le> (1 / 4 :: real) \<and> (1 / 4 :: real) < 1 \<and> rnd ieee (1 / 4) = 1 / 4) \<and>
   0 < length (particles quarter_system) \<and>
   0 \<le> rotation (particles quarter_system ! 0) \<and>
   rotation (particles quarter_system ! 0) < 2 * pi \<and>
   1 / 100 \<le> speed (particles quarter_system ! 0) \<and>
   speed (particles quarter_system ! 0) < 3 / 100 \<and>
   5 / 100 \<le> radius (particles quarter_system ! 0) \<and>
   radius (particles quarter_system ! 0) < 15 / 100"
proof -
  have a: "ieee = exact \<or> ieee = ieee" by simp
  have b: "\<forall>k. 0 \<le> (\<lambda>k. 1 / 4 :: real) k \<and> (\<lambda>k. 1 / 4 :: real) k < 1
      \<and> rnd ieee ((\<lambda>k. 1 / 4) k) = (\<lambda>k. 1 / 4) k"
    by (simp add: ieee_simps rnd64_quarter)
  have c: "0 < length (particles (fst (createParticles ieee (\<lambda>k. 1 / 4) working
      \<lparr>numParticles = 0, particles = [], vertices = [], gl_calls = []\<rparr>)))"
    by (simp add: createParticles_length)
  show ?thesis
    using created_particles_in_range [OF a b c] b c
    unfolding quarter_system_def by simp
qed

text \<open>
  C8, as amended. A tick changes, of a particle, the rotation only: position, speed and
  radius stay, and so do the number of particles and \<^verbatim>\<open>numParticles\<close>. The rotation
  becomes the sum of rotation and speed as the arithmetic rounds it. With a positive
  speed it is strictly greater than before in exact arithmetic. In double arithmetic it
  is never smaller than before, and it is strictly greater as long as the rotation is
  below \<open>2 ^ 46\<close> and the speed at least 1/128 (the speeds of the program are at least
  0.01).
\<close>

theorem tick_changes_rotation_only:
  assumes "i < length (particles s)"
  shows "(\<exists>s'. updateParticles fp s = Inr s' \<and>
           numParticles s' = numParticles s \<and>
           length (particles s') = length (particles s) \<and>
           position (particles s' ! i) = position (particles s ! i) \<and>
           speed (particles s' ! i) = speed (particles s ! i) \<and>
           radius (particles s' ! i) = radius (particles s ! i) \<and>
           rotation (particles s' ! i) =
             rnd fp (rotation (particles s ! i) + speed (particles s ! i))) \<and>
         (0 < speed (particles s ! i) \<longrightarrow>
            (\<exists>s'. updateParticles exact s = Inr s' \<and>
               rotation (particles s ! i) < rotation (particles s' ! i))) \<and>
         (0 \<le> speed (particles s ! i) \<and>
          rnd64 (rotation (particles s ! i)) = rotation (particles s ! i) \<longrightarrow>
            (\<exists>s'. updateParticles ieee s = Inr s' \<and>
               rotation (particles s ! i) \<le> rotation (particles s' ! i))) \<and>
         (1 / 128 \<le> speed (particles s ! i) \<and>
          rnd64 (rotation (particles s ! i)) = rotation (particles s ! i) \<and>
          0 \<le> rotation (particles s ! i) \<and> rotation (particles s ! i) < 2 ^ 46 \<longrightarrow>
            (\<exists>s'. updateParticles ieee s = Inr s' \<and>
               rotation (particles s ! i) < rotation (particles s' ! i)))"
proof (intro conjI impI)
  show "\<exists>s'. updateParticles fp s = Inr s' \<and>
           numParticles s' = numParticles s \<and>
           length (particles s') = length (particles s) \<and>
           position (particles s' ! i) = position (particles s ! i) \<and>
           speed (particles s' ! i) = speed (particles s ! i) \<and>
           radius (particles s' ! i) = radius (particles s ! i) \<and>
           rotation (particles s' ! i) =
             rnd fp (rotation (particles s ! i) + speed (particles s ! i))"
    by (rule updateParticles_frame [OF assms])
next
  assume "0 < speed (particles s ! i)"
  then show "\<exists>s'. updateParticles exact s = Inr s' \<and>
      rotation (particles s ! i) < rotation (particles s' ! i)"
    using updateParticles_frame [OF assms, of exact] by (auto simp: exact_simps)
next
  assume a: "0 \<le> speed (particles s ! i) \<and>
    rnd64 (rotation (particles s ! i)) = rotation (particles s ! i)"
  then have "rnd64 (rotation (particles s ! i))
      \<le> rnd64 (rotation (particles s ! i) + speed (particles s ! i))"
    by (intro rnd64_mono) simp
  then have "rotation (particles s ! i)
      \<le> rnd64 (rotation (particles s ! i) + speed (particles s ! i))"
    using a by simp
  then show "\<exists>s'. updateParticles ieee s = Inr s' \<and>
      rotation (particles s ! i) \<le> rotation (particles s' ! i)"
    using updateParticles_frame [OF assms, of ieee] by (auto simp: ieee_simps)
next
  assume a: "1 / 128 \<le> speed (particles s ! i) \<and>
    rnd64 (rotation (particles s ! i)) = rotation (particles s ! i) \<and>
    0 \<le> rotation (particles s ! i) \<and> rotation (particles s ! i) < 2 ^ 46"
  then have "rotation (particles s ! i)
      < rnd64 (rotation (particles s ! i) + speed (particles s ! i))"
    by (intro rnd64_strict_increase) simp_all
  then show "\<exists>s'. updateParticles ieee s = Inr s' \<and>
      rotation (particles s ! i) < rotation (particles s' ! i)"
    using updateParticles_frame [OF assms, of ieee] by (auto simp: ieee_simps)
qed

text \<open>
  The first of the particles made when every \<^verbatim>\<open>Math.random()\<close> returns 0.25, of
  rotation 1.5707963267948966, speed 0.015 and radius 0.075.
\<close>

theorem tick_changes_rotation_only_witness:
  "0 < length (particles quarter_system) \<and>
   1 / 128 \<le> speed (particles quarter_system ! 0) \<and>
   rnd64 (rotation (particles quarter_system ! 0)) = rotation (particles quarter_system ! 0) \<and>
   0 \<le> rotation (particles quarter_system ! 0) \<and>
   rotation (particles quarter_system ! 0) < 2 ^ 46 \<and>
   (\<exists>s'. updateParticles exact quarter_system = Inr s' \<and>
      position (particles s' ! 0) = position (particles quarter_system ! 0) \<and>
      speed (particles s' ! 0) = 1080863910568919 / 2 ^ 56 \<and>
      radius (particles s' ! 0) = 1351079888211149 / 2 ^ 54 \<and>
      rotation (particles quarter_system ! 0) < rotation (particles s' ! 0)) \<and>
   (\<exists>s'. updateParticles ieee quarter_system = Inr s' \<and>
      rotation (particles quarter_system ! 0) < rotation (particles s' ! 0))"
proof -
  have h: "0 < length (particles quarter_system)" by (simp add: quarter_length)
  have v: "rotation (particles quarter_system ! 0) = 884279719003555 / 2 ^ 49"
    "speed (particles quarter_system ! 0) = 1080863910568919 / 2 ^ 56"
    "radius (particles quarter_system ! 0) = 1351079888211149 / 2 ^ 54"
    by (simp_all add: quarter_rotation quarter_speed quarter_radius)
  have a: "1 / 128 \<le> speed (particles quarter_system ! 0) \<and>
    rnd64 (rotation (particles quarter_system ! 0)) = rotation (particles quarter_system ! 0) \<and>
    0 \<le> rotation (particles quarter_system ! 0) \<and>
    rotation (particles quarter_system ! 0) < 2 ^ 46"
    unfolding v rnd64_q_rot by simp
  then have sp: "0 < speed (particles quarter_system ! 0)" by linarith
  note t = tick_changes_rotation_only [OF h]
  obtain s' where e: "updateParticles exact quarter_system = Inr s'"
    "position (particles s' ! 0) = position (particles quarter_system ! 0)"
    "speed (particles s' ! 0) = speed (particles quarter_system ! 0)"
    "radius (particles s' ! 0) = radius (particles quarter_system ! 0)"
    using conjunct1 [OF t [of exact]] by blast
  obtain s'' where "updateParticles exact quarter_system = Inr s''"
    "rotation (particles quarter_system ! 0) < rotation (particles s'' ! 0)"
    using conjunct1 [OF conjunct2 [OF t [of exact]]] sp by blast
  with e have "\<exists>s'. updateParticles exact quarter_system = Inr s' \<and>
      position (particles s' ! 0) = position (particles quarter_system ! 0) \<and>
      speed (particles s' ! 0) = 1080863910568919 / 2 ^ 56 \<and>
      radius (particles s' ! 0) = 1351079888211149 / 2 ^ 54 \<and>
      rotation (particles quarter_system ! 0) < rotation (particles s' ! 0)"
    unfolding v by auto
  moreover have "\<exists>s'. updateParticles ieee quarter_system = Inr s' \<and>
      rotation (particles quarter_system ! 0) < rotation (particles s' ! 0)"
    using conjunct2 [OF conjunct2 [OF conjunct2 [OF t [of exact]]]] a by blast
  ultimately show ?thesis using h a by blast
qed

text \<open>
  As the claim states it, the strict increase fails in double arithmetic, at a state the
  program reaches. Take the system the constructor makes when every \<^verbatim>\<open>Math.random()\<close>
  returns 0.25. The rotation of its first particle, of speed 0.015, is at every tick a
  double between 1 and \<open>2 ^ 48\<close>, so a multiple of \<open>2 ^ -52\<close>, and there are finitely
  many of these: after some number of ticks a further tick does not increase it. (By
  the theorem above this is not before the rotation has reached \<open>2 ^ 46\<close>, which takes
  more than \<open>2 ^ 46 / 0.03\<close> ticks.)
\<close>

theorem tick_changes_rotation_only_counterexample:
  "\<exists>n s s'. ticks ieee n (projr (constructor ieee (\<lambda>k. 1 / 4) working)) = Inr s \<and>
     reachable ieee s \<and>
     0 < length (particles s) \<and>
     0 < speed (particles s ! 0) \<and>
     updateParticles ieee s = Inr s' \<and>
     \<not> rotation (particles s ! 0) < rotation (particles s' ! 0)"
proof -
  obtain s0 where new: "constructor ieee (\<lambda>k. 1 / 4) working = Inr s0"
    using constructor_working by blast
  then have "draw ieee quarter_system = Inr s0"
    unfolding quarter_system_def by (rule constructor_Inr)
  then have ps: "particles s0 = map (spin ieee) (particles quarter_system)"
    using draw_result [of ieee quarter_system] by auto
  have len: "0 < length (particles s0)" by (simp add: ps quarter_length)
  have "particles s0 ! 0 = spin ieee (particles quarter_system ! 0)"
    by (simp add: ps quarter_length)
  then have sp: "speed (particles s0 ! 0) = 1080863910568919 / 2 ^ 56"
    and "rotation (particles s0 ! 0) =
       rnd64 (rotation (particles quarter_system ! 0) + speed (particles quarter_system ! 0))"
    by (simp_all add: spin_def quarter_speed ieee_simps)
  then have rot: "rotation (particles s0 ! 0) = real_of_int 7141791746438997 / 2 ^ 52"
    by (simp only: quarter_rotation quarter_speed q_tick_1 zero_less_numeral of_int_numeral)
  have "1 \<le> rotation (particles s0 ! 0)" "rotation (particles s0 ! 0) \<le> 2 ^ 48"
    "0 \<le> speed (particles s0 ! 0)" "speed (particles s0 ! 0) \<le> 3 / 100"
    unfolding rot sp by simp_all
  then obtain n where stall:
    "\<not> ((\<lambda>v. rnd64 (v + speed (particles s0 ! 0))) ^^ n) (rotation (particles s0 ! 0))
       < ((\<lambda>v. rnd64 (v + speed (particles s0 ! 0))) ^^ Suc n) (rotation (particles s0 ! 0))"
    using rotation_stalls [OF _ _ rot] by blast
  obtain s where run: "ticks ieee n s0 = Inr s"
    and l: "length (particles s) = length (particles s0)"
    and v: "speed (particles s ! 0) = speed (particles s0 ! 0)"
    and r: "rotation (particles s ! 0) =
       ((\<lambda>v. rnd ieee (v + speed (particles s0 ! 0))) ^^ n) (rotation (particles s0 ! 0))"
    using ticks_rotation [OF len, of ieee n] by blast
  have l': "0 < length (particles s)" using l len by simp
  obtain s' where tick: "updateParticles ieee s = Inr s'"
    and r': "rotation (particles s' ! 0) =
       rnd ieee (rotation (particles s ! 0) + speed (particles s ! 0))"
    using updateParticles_frame [OF l', of ieee] by blast
  have "reachable ieee s0" using new by (rule reach_new)
  then have "reachable ieee s" using run by (rule reachable_ticks)
  moreover have "0 < speed (particles s ! 0)" unfolding v sp by simp
  moreover have "\<not> rotation (particles s ! 0) < rotation (particles s' ! 0)"
    using stall unfolding r' r v by (simp add: ieee_simps)
  ultimately show ?thesis using run tick l' by (auto simp: new)
qed

text \<open>
  C9 (the code of the second script departs from the claim). Each frame should issue
  one draw-lines call over \<open>count * 2\<close> vertices, \<open>count\<close> being the number of line
  segments. A frame of \<^verbatim>\<open>ParticleSystem\<close> does (\<open>draw_one_call\<close> above). A frame of the
  second script, \<^verbatim>\<open>drawScene\<close>, issues one draw-lines call too, but over
  \<^verbatim>\<open>numLines\<close> vertices: half of the \<open>numLines * 2\<close> vertices that \<^verbatim>\<open>draw00\<close> has just
  updated in the buffer.
\<close>

theorem drawScene_vertex_count:
  "\<exists>sc'. drawScene fp (sc\<lparr>targetArr := tg # ts\<rparr>) = Inr sc' \<and>
     numLines sc' = numLines sc \<and>
     length (scene_vertices sc') = length (scene_vertices sc) \<and>
     scene_calls sc' = scene_calls sc @
       [LineWidth 2, BufferData (scene_vertices sc'), Clear,
        DrawArrays LINES 0 (numLines sc), Flush]"
proof -
  obtain vs where "draw00 fp (sc\<lparr>targetArr := tg # ts\<rparr>) =
       Inr (sc\<lparr>targetArr :=
                 map (\<lambda>t. t\<lparr>target_rotate := rnd fp (target_rotate t + rotate_speed t)\<rparr>) (tg # ts),
               scene_vertices := vs\<rparr>)"
     "length vs = length (scene_vertices sc)"
    using draw00_total by blast
  then show ?thesis by (simp add: drawScene_def)
qed

text \<open>
  C10. The constructor fails exactly when the browser refuses one of the things it asks
  for, with the error of the first refusal, in the order of the source: the canvas, the
  context, the two shaders (creation, then compilation), the program (creation, then
  linking), the uniform locations, the vertex buffer. If nothing is refused it returns a
  system. Reinitialization through \<^verbatim>\<open>setParticleCount\<close> repeats the request for a
  vertex buffer and fails when that is refused. The tick has no error branch:
  \<^verbatim>\<open>updateParticles\<close>, \<^verbatim>\<open>draw\<close> and any number of animation frames return a system
  from every state.
\<close>

theorem failures_only_at_initialization:
  "(\<exists>s'. updateParticles fp s = Inr s') \<and>
   (\<exists>s'. draw fp s = Inr s') \<and>
   (\<exists>s'. animate fp n s = Inr s') \<and>
   (\<exists>s'. ticks fp n s = Inr s') \<and>
   snd (setParticleCount fp rand env count s) =
     (if buffer_created env then None else Some FailedToCreateVertexBuffer) \<and>
   (if \<not> canvas_found env then constructor fp rand env = Inl CanvasNotFound
    else if \<not> (context_webgl env \<or> context_experimental env)
      then constructor fp rand env = Inl WebGLNotSupported
    else if \<not> shader_created env VERTEX_SHADER
      then constructor fp rand env = Inl FailedToCreateShader
    else if \<not> compile_status env VERTEX_SHADER
      then constructor fp rand env = Inl ShaderCompilationError
    else if \<not> shader_created env FRAGMENT_SHADER
      then constructor fp rand env = Inl FailedToCreateShader
    else if \<not> compile_status env FRAGMENT_SHADER
      then constructor fp rand env = Inl ShaderCompilationError
    else if \<not> program_created env
      then constructor fp rand env = Inl FailedToCreateShaderProgram
    else if \<not> link_status env
      then constructor fp rand env = Inl UnableToInitializeShaders
    else if \<not> (uniform_modelView env \<and> uniform_perspective env)
      then constructor fp rand env = Inl UnableToGetUniformLocations
    else if \<not> buffer_created env
      then constructor fp rand env = Inl FailedToCreateVertexBuffer
    else (\<exists>s'. constructor fp rand env = Inr s'))"
proof -
  have tick: "\<exists>s'. updateParticles fp s = Inr s'" for s
    using updateParticles_result [of fp s] by blast
  have frame: "\<exists>s'. draw fp s = Inr s'" for s
    using draw_result [of fp s] by blast
  have frames: "\<exists>s'. animate fp n s = Inr s'" for s
  proof (induction n arbitrary: s)
    case 0
    show ?case by simp
  next
    case (Suc n)
    obtain t where "draw fp s = Inr t" using frame by blast
    with Suc [of t] show ?case by simp
  qed
  have tks: "\<exists>s'. ticks fp n s = Inr s'" for s
  proof (induction n arbitrary: s)
    case 0
    show ?case by simp
  next
    case (Suc n)
    obtain t where "updateParticles fp s = Inr t" using tick by blast
    with Suc [of t] show ?case by simp
  qed
  let ?e = "\<lparr>numParticles = 0, particles = [], vertices = [], gl_calls = []\<rparr>"
  obtain t where t: "createParticles fp rand env ?e =
      (t, if buffer_created env then None else Some FailedToCreateVertexBuffer)"
    using createParticles_error [of fp rand env ?e] by (metis prod.collapse)
  obtain u where u: "draw fp t = Inr u" using frame by blast
  have new: "if \<not> canvas_found env then constructor fp rand env = Inl CanvasNotFound
    else if \<not> (context_webgl env \<or> context_experimental env)
      then constructor fp rand env = Inl WebGLNotSupported
    else if \<not> shader_created env VERTEX_SHADER
      then constructor fp rand env = Inl FailedToCreateShader
    else if \<not> compile_status env VERTEX_SHADER
      then constructor fp rand env = Inl ShaderCompilationError
    else if \<not> shader_created env FRAGMENT_SHADER
      then constructor fp rand env = Inl FailedToCreateShader
    else if \<not> compile_status env FRAGMENT_SHADER
      then constructor fp rand env = Inl ShaderCompilationError
    else if \<not> program_created env
      then constructor fp rand env = Inl FailedToCreateShaderProgram
    else if \<not> link_status env
      then constructor fp rand env = Inl UnableToInitializeShaders
    else if \<not> (uniform_modelView env \<and> uniform_perspective env)
      then constructor fp rand env = Inl UnableToGetUniformLocations
    else if \<not> buffer_created env
      then constructor fp rand env = Inl FailedToCreateVertexBuffer
    else (\<exists>s'. constructor fp rand env = Inr s')"
    by (simp add: constructor_def initWebGL_def initShaders_def compileShader_def
        setupScene_def t u)
  have cnt: "snd (setParticleCount fp rand env count s) =
     (if buffer_created env then None else Some FailedToCreateVertexBuffer)"
    by (simp add: setParticleCount_def Let_def createParticles_error)
  show ?thesis
    using tick frame frames tks new cnt by blast
qed

end
